theory Spec2Isabelle
  imports Complex_Main "HOL-Library.Sublist" "HOL-Library.Log_Nat"
begin

section \<open>The photo upload page: data model\<close>

text \<open>
  The page script keeps one global, \<open>selectedFiles\<close>, and talks to the browser: the file
  input, the message element, the HEIC converter \<open>heic2any\<close>, \<open>FileReader\<close>, \<open>Image\<close>,
  a canvas and \<open>XMLHttpRequest\<close>. The model below follows \<^verbatim>\<open>src/script.js\<close> function by
  function. What the browser answers is a parameter (the record \<open>env\<close>); what the script
  writes is a field of the record \<open>page\<close>.
\<close>

subsection \<open>Constants\<close>

definition MAX_FILES :: nat where
  "MAX_FILES = 10"

definition MAX_FILE_SIZE_BYTES :: nat where
  "MAX_FILE_SIZE_BYTES = 20 * 1024 * 1024"

definition MAX_WIDTH :: nat where
  "MAX_WIDTH = 1920"

definition HEIC_TYPES :: "string list" where
  "HEIC_TYPES = [''image/heic'', ''image/heif'']"

subsection \<open>Blobs, files, images, canvases\<close>

text \<open>
  A \<open>File\<close> is a \<open>Blob\<close> with a name and a modification time. The \<open>size\<close> attribute of a
  blob is the number of its bytes. Names, types and messages are strings of bytes (UTF-8);
  the script looks at their ASCII characters only.
\<close>

type_synonym bytes = "char list"

record blob =
  blob_bytes :: bytes
  blob_type :: string

record jsfile = blob +
  file_name :: string
  lastModified :: nat

definition blob_size :: "'a blob_scheme \<Rightarrow> nat" where
  "blob_size b = length (blob_bytes b)"

text \<open>\<^verbatim>\<open>new File([part], name, {type, lastModified})\<close> with a single blob part.\<close>

definition new_File :: "'a blob_scheme \<Rightarrow> string \<Rightarrow> string \<Rightarrow> nat \<Rightarrow> jsfile" where
  "new_File part nm ty stamp =
     \<lparr>blob_bytes = blob_bytes part, blob_type = ty, file_name = nm, lastModified = stamp\<rparr>"

text \<open>
  A decoded \<open>Image\<close>: its pixel dimensions and the file it was loaded from. A canvas: its
  dimensions and the image drawn over the whole surface. In the browser the \<open>width\<close> and
  \<open>height\<close> of an image are unsigned 32-bit attributes; here they are natural numbers, and
  the statements that need the bound \<open>2 ^ 32\<close> say so.
\<close>

record image =
  width :: nat
  height :: nat
  image_src :: jsfile

record canvas =
  canvas_width :: nat
  canvas_height :: nat
  canvas_drawn :: image

datatype error = Error string

subsection \<open>The browser\<close>

text \<open>
  \<open>heic2any\<close> rejects, or resolves to one blob or to an array of blobs. \<open>FileReader\<close> either
  loads a file or fires \<open>onerror\<close>; the image decoder either yields dimensions or fires
  \<open>onerror\<close>; \<open>canvas.toBlob\<close> calls back with a blob or with \<open>null\<close>. \<open>Date_now\<close> is the
  clock reading taken while the file given as argument is being rewritten.
\<close>

datatype heic_output = OneBlob blob | BlobArray "blob list"

text \<open>
  What the server answers to an upload: the request fails on the network, or it completes
  with a status and a response text. The text is empty, or is not JSON, or parses to a
  value of which the script reads whether \<open>success\<close> is truthy and the \<open>error\<close> text, if any.
\<close>

datatype json_response = NoBody | BadJSON | Body bool "string option"

datatype xhr_result = NetworkError | Done nat json_response

record env =
  heic2any :: "jsfile \<Rightarrow> error + heic_output"
  reader_loads :: "jsfile \<Rightarrow> bool"
  image_decodes :: "jsfile \<Rightarrow> (nat \<times> nat) option"
  canvas_toBlob :: "canvas \<Rightarrow> blob option"
  Date_now :: "jsfile \<Rightarrow> nat"
  xhr_send :: "jsfile list \<Rightarrow> xhr_result"

section \<open>Format detection and conversion\<close>

subsection \<open>The regular expressions\<close>

text \<open>
  The three patterns of the script, \<^verbatim>\<open>/\.heic$/i\<close>, \<^verbatim>\<open>/\.heif$/i\<close> and
  \<^verbatim>\<open>/\.(heic|heif)$/i\<close>, are a literal followed by the end anchor, compared ignoring case.
  Without the \<open>u\<close> flag, ignoring case means comparing the upper-case forms of the two
  characters, and a character outside ASCII never becomes an ASCII one; since the literals
  are ASCII, only the ASCII letters need a case mapping here.
\<close>

definition canonicalize :: "char \<Rightarrow> char" where
  "canonicalize c =
     (if 97 \<le> (of_char c :: nat) \<and> (of_char c :: nat) \<le> 122
      then char_of ((of_char c :: nat) - 32) else c)"

text \<open>The literal \<open>lit\<close> followed by \<open>$\<close> matches at a position when the rest of the
  input is \<open>lit\<close> up to case.\<close>

definition lit_end_matches :: "string \<Rightarrow> string \<Rightarrow> bool" where
  "lit_end_matches lit rest = (map canonicalize rest = map canonicalize lit)"

text \<open>\<open>test\<close> tries every start position from the left.\<close>

fun regex_test :: "(string \<Rightarrow> bool) \<Rightarrow> string \<Rightarrow> bool" where
  "regex_test m [] = m []"
| "regex_test m (c # cs) = (if m (c # cs) then True else regex_test m cs)"

text \<open>\<open>replace\<close> rewrites the first match; an anchored match runs to the end of the input.\<close>

fun regex_replace :: "(string \<Rightarrow> bool) \<Rightarrow> string \<Rightarrow> string \<Rightarrow> string" where
  "regex_replace m [] new = (if m [] then new else [])"
| "regex_replace m (c # cs) new = (if m (c # cs) then new else c # regex_replace m cs new)"

definition re_heic :: "string \<Rightarrow> bool" where
  "re_heic = lit_end_matches ''.heic''"

definition re_heif :: "string \<Rightarrow> bool" where
  "re_heif = lit_end_matches ''.heif''"

definition re_heic_or_heif :: "string \<Rightarrow> bool" where
  "re_heic_or_heif rest = (lit_end_matches ''.heic'' rest \<or> lit_end_matches ''.heif'' rest)"

subsection \<open>isHeicFile, convertHeicToJpeg, ensureImageCanLoad\<close>

definition isHeicFile :: "jsfile \<Rightarrow> bool" where
  "isHeicFile f =
     (blob_type f \<in> set HEIC_TYPES \<or>
      regex_test re_heic (file_name f) \<or>
      regex_test re_heif (file_name f))"

text \<open>
  \<^verbatim>\<open>Array.isArray(blob) ? blob[0] : blob\<close>. The first element of an empty array is
  \<open>undefined\<close>, which the \<open>File\<close> constructor turns into the text \<open>undefined\<close>.
\<close>

definition first_variant :: "heic_output \<Rightarrow> blob" where
  "first_variant out =
     (case out of
        OneBlob b \<Rightarrow> b
      | BlobArray [] \<Rightarrow> \<lparr>blob_bytes = ''undefined'', blob_type = ''''\<rparr>
      | BlobArray (b # _) \<Rightarrow> b)"

definition convertHeicToJpeg :: "env \<Rightarrow> jsfile \<Rightarrow> error + jsfile" where
  "convertHeicToJpeg e f =
     (case heic2any e f of
        Inl err \<Rightarrow> Inl err
      | Inr out \<Rightarrow>
          (let jpegBlob = first_variant out;
               baseName = regex_replace re_heic_or_heif (file_name f) ''.jpg''
           in Inr (new_File jpegBlob baseName ''image/jpeg'' (Date_now e f))))"

definition ensureImageCanLoad :: "env \<Rightarrow> jsfile \<Rightarrow> error + jsfile" where
  "ensureImageCanLoad e f = (if isHeicFile f then convertHeicToJpeg e f else Inr f)"

section \<open>Numbers\<close>

text \<open>
  JavaScript numbers are IEEE 754 binary64 values, and \<open>/\<close> and \<open>*\<close> round the exact
  result to the nearest such value, ties to the even significand. The values met here (a
  quotient of 1920 by a pixel width, a pixel height times that quotient) lie far inside
  the normal range, so a number is modelled by the rational it denotes and rounding keeps
  53 significant bits, with no bound on the exponent.
\<close>

definition pow2 :: "int \<Rightarrow> rat" where
  "pow2 k = (if 0 \<le> k then 2 ^ nat k else 1 / 2 ^ nat (- k))"

text \<open>
  The exponent \<open>e\<close> of a positive \<open>x\<close>, with \<open>2 ^ e \<le> x < 2 ^ (e + 1)\<close> (lemmas
  \<open>binade_lower\<close> and \<open>binade_upper\<close>): from the number of bits of the integer part when
  \<open>x\<close> is at least 1, and of the integer just below \<open>1 / x\<close> rounded up otherwise.
\<close>

definition binade :: "rat \<Rightarrow> int" where
  "binade x =
     (if 1 \<le> x then int (floorlog 2 (nat \<lfloor>x\<rfloor>)) - 1
      else - int (floorlog 2 (nat (\<lceil>1 / x\<rceil> - 1))))"

text \<open>The nearest integer, a tie going to the even one.\<close>

definition rne :: "rat \<Rightarrow> int" where
  "rne y =
     (let f = \<lfloor>y\<rfloor>; r = y - of_int f
      in if r < 1 / 2 then f else if 1 / 2 < r then f + 1 else if even f then f else f + 1)"

definition binary64 :: "rat \<Rightarrow> rat" where
  "binary64 x =
     (if x = 0 then 0
      else (let u = pow2 (binade \<bar>x\<bar> - 52) in of_int (rne (x / u)) * u))"

definition js_div :: "rat \<Rightarrow> rat \<Rightarrow> rat" where
  "js_div a b = binary64 (a / b)"

definition js_mul :: "rat \<Rightarrow> rat \<Rightarrow> rat" where
  "js_mul a b = binary64 (a * b)"

text \<open>\<open>Math.round\<close>: the nearest integer, a tie going up.\<close>

definition Math_round :: "rat \<Rightarrow> int" where
  "Math_round x = \<lfloor>x + 1 / 2\<rfloor>"

section \<open>Decoding and resizing\<close>

definition readFileAsImage :: "env \<Rightarrow> jsfile \<Rightarrow> error + image" where
  "readFileAsImage e f =
     (if \<not> reader_loads e f then Inl (Error ''Failed to read file.'')
      else (case image_decodes e f of
              None \<Rightarrow> Inl (Error ''Failed to load image.'')
            | Some (w, h) \<Rightarrow> Inr \<lparr>width = w, height = h, image_src = f\<rparr>))"

text \<open>
  The three assignments of \<open>compressImage\<close> that follow the width test:
  \<^verbatim>\<open>scale = MAX_WIDTH / width; width = MAX_WIDTH; height = Math.round(height * scale)\<close>.
  The quotient is rounded to a binary64 value before the product is taken and rounded
  again.
\<close>

definition scaled_size :: "nat \<Rightarrow> nat \<Rightarrow> nat \<times> nat" where
  "scaled_size w h =
     (let scale = js_div (of_nat MAX_WIDTH) (of_nat w);
          width' = MAX_WIDTH;
          height' = Math_round (js_mul (of_nat h) scale)
      in (width', nat height'))"

definition compressImage :: "env \<Rightarrow> jsfile \<Rightarrow> error + jsfile" where
  "compressImage e f =
     (case ensureImageCanLoad e f of
        Inl err \<Rightarrow> Inl err
      | Inr loadableFile \<Rightarrow>
          (case readFileAsImage e loadableFile of
             Inl err \<Rightarrow> Inl err
           | Inr img \<Rightarrow>
               if width img \<le> MAX_WIDTH then Inr loadableFile
               else (let (w', h') = scaled_size (width img) (height img);
                         cv = \<lparr>canvas_width = w', canvas_height = h', canvas_drawn = img\<rparr>
                     in case canvas_toBlob e cv of
                          None \<Rightarrow> Inl (Error ''Image compression failed.'')
                        | Some b \<Rightarrow>
                            Inr (new_File b (file_name loadableFile) ''image/jpeg''
                                   (Date_now e loadableFile)))))"

section \<open>The page\<close>

text \<open>
  \<open>messages\<close> lists the calls of \<open>setMessage\<close> in order, each with its text and its kind;
  the message element shows the last one. \<open>previews\<close> are the files handed to the preview
  reader since the last \<open>resetPreview\<close>, \<open>requests\<close> the form data of every \<open>xhr.send\<close>.
\<close>

record page =
  selectedFiles :: "jsfile list"
  messages :: "(string \<times> string) list"
  previews :: "jsfile list"
  uploadButton_disabled :: bool
  fileInput_disabled :: bool
  progress_hidden :: bool
  progress_percent :: nat
  progress_text :: string
  requests :: "jsfile list list"

definition setMessage :: "string \<Rightarrow> string \<Rightarrow> page \<Rightarrow> page" where
  "setMessage text ty p = p\<lparr>messages := messages p @ [(text, ty)]\<rparr>"

definition resetPreview :: "page \<Rightarrow> page" where
  "resetPreview p = p\<lparr>previews := []\<rparr>"

definition updateUploadButtonState :: "page \<Rightarrow> page" where
  "updateUploadButtonState p = p\<lparr>uploadButton_disabled := (length (selectedFiles p) = 0)\<rparr>"

subsection \<open>The texts\<close>

definition msg_too_many :: string where
  "msg_too_many = ''You can select a maximum of 10 photos.''"

definition msg_not_image :: string where
  "msg_not_image = ''Only image files are allowed.''"

definition msg_too_large :: "string \<Rightarrow> string" where
  "msg_too_large nm =
     ''Each photo must be smaller than 20MB. '' @ [CHR 0x22] @ nm @ [CHR 0x22] @ '' is too large.''"

definition msg_no_preview :: "string \<Rightarrow> string" where
  "msg_no_preview nm =
     ''Could not preview '' @ [CHR 0x22] @ nm @ [CHR 0x22] @ ''. It may still upload.''"

definition msg_none_valid :: string where
  "msg_none_valid = ''No valid images selected. Please choose different files.''"

definition msg_not_processed :: string where
  "msg_not_processed =
     ''One of the images could not be processed. Please try different files.''"

subsection \<open>Choosing files\<close>

text \<open>The test of the loop body: \<^verbatim>\<open>file.type.startsWith('image/') || isHeicFile(file)\<close>.\<close>

definition isValidImage :: "jsfile \<Rightarrow> bool" where
  "isValidImage f = (prefix ''image/'' (blob_type f) \<or> isHeicFile f)"

text \<open>The body of the loop over \<open>limitedFiles\<close>, one file at a time.\<close>

fun validate_each :: "env \<Rightarrow> jsfile list \<Rightarrow> page \<Rightarrow> page" where
  "validate_each e [] p = p"
| "validate_each e (f # rest) p =
     (if \<not> isValidImage f then
        validate_each e rest (setMessage msg_not_image ''error'' p)
      else if blob_size f > MAX_FILE_SIZE_BYTES then
        validate_each e rest (setMessage (msg_too_large (file_name f)) ''error'' p)
      else
        (let p1 = p\<lparr>selectedFiles := selectedFiles p @ [f]\<rparr>;
             p2 = (case ensureImageCanLoad e f of
                     Inr loadableFile \<Rightarrow> p1\<lparr>previews := previews p1 @ [loadableFile]\<rparr>
                   | Inl err \<Rightarrow> setMessage (msg_no_preview (file_name f)) ''error'' p1)
         in validate_each e rest p2))"

definition fileInput_change :: "env \<Rightarrow> jsfile list \<Rightarrow> page \<Rightarrow> page" where
  "fileInput_change e files p =
     (let p0 = setMessage [] [] (resetPreview (p\<lparr>selectedFiles := []\<rparr>))
      in if length files = 0 then updateUploadButtonState p0
         else
           (let p1 = (if length files > MAX_FILES
                      then setMessage msg_too_many ''error'' p0 else p0);
                limitedFiles = take MAX_FILES files;
                p2 = validate_each e limitedFiles p1;
                p3 = (if length (selectedFiles p2) = 0 \<and> length files > 0
                      then setMessage msg_none_valid ''error'' p2 else p2)
            in updateUploadButtonState p3))"

subsection \<open>Preparing a batch\<close>

text \<open>
  The loop of \<open>prepareCompressedFiles\<close>, with the array \<open>compressedFiles\<close> as accumulator.
  A rejection of \<open>compressImage\<close> is caught, reported and thrown again.
\<close>

fun prepare_each :: "env \<Rightarrow> jsfile list \<Rightarrow> jsfile list \<Rightarrow> page \<Rightarrow> (error + jsfile list) \<times> page" where
  "prepare_each e [] compressedFiles p = (Inr compressedFiles, p)"
| "prepare_each e (f # rest) compressedFiles p =
     (case compressImage e f of
        Inr compressed \<Rightarrow> prepare_each e rest (compressedFiles @ [compressed]) p
      | Inl err \<Rightarrow> (Inl err, setMessage msg_not_processed ''error'' p))"

definition prepareCompressedFiles :: "env \<Rightarrow> jsfile list \<Rightarrow> page \<Rightarrow> (error + jsfile list) \<times> page" where
  "prepareCompressedFiles e files p = prepare_each e files [] p"

subsection \<open>Submitting\<close>

definition resetProgress :: "page \<Rightarrow> page" where
  "resetProgress p = p\<lparr>progress_percent := 0, progress_text := ''Preparing...''\<rparr>"

definition setProgress :: "nat \<Rightarrow> string \<Rightarrow> page \<Rightarrow> page" where
  "setProgress percent text p =
     p\<lparr>progress_percent := percent,
       progress_text := (if text \<noteq> [] then text else progress_text p)\<rparr>"

definition msg_select_one :: string where
  "msg_select_one = ''Please select at least one photo.''"

definition msg_uploading :: string where
  "msg_uploading =
     ''Foto'' @ [CHR 0xC4, CHR 0x9F] @ ''raflar y'' @ [CHR 0xC3, CHR 0xBC] @ ''kleniyor...''"

definition msg_uploaded :: string where
  "msg_uploaded =
     ''Te'' @ [CHR 0xC5, CHR 0x9F] @ ''ekk'' @ [CHR 0xC3, CHR 0xBC] @ ''rler! Foto'' @
     [CHR 0xC4, CHR 0x9F] @ ''raflar'' @ [CHR 0xC4, CHR 0xB1] @ ''n'' @ [CHR 0xC4, CHR 0xB1] @
     ''z ba'' @ [CHR 0xC5, CHR 0x9F] @ ''ar'' @ [CHR 0xC4, CHR 0xB1] @ ''yla y'' @
     [CHR 0xC3, CHR 0xBC] @ ''klendi.''"

definition msg_upload_failed :: string where
  "msg_upload_failed =
     ''Foto'' @ [CHR 0xC4, CHR 0x9F] @ ''raflar'' @ [CHR 0xC4, CHR 0xB1] @ ''n'' @
     [CHR 0xC4, CHR 0xB1] @ ''z'' @ [CHR 0xC4, CHR 0xB1] @ '' y'' @ [CHR 0xC3, CHR 0xBC] @
     ''klerken bir'' @ [CHR 0xC5, CHR 0x9F] @ ''eyler ters gitti. L'' @ [CHR 0xC3, CHR 0xBC] @
     ''tfen tekrar deneyin.''"

definition msg_bad_response :: string where
  "msg_bad_response = ''An unexpected error occurred while processing the server response.''"

definition msg_unreachable :: string where
  "msg_unreachable =
     ''Could not reach the server. Please check your connection and try again.''"

text \<open>
  \<open>onreadystatechange\<close> in state \<open>DONE\<close>: the page after it, and whether the promise of the
  upload was resolved.
\<close>

definition xhr_done :: "nat \<Rightarrow> json_response \<Rightarrow> page \<Rightarrow> bool \<times> page" where
  "xhr_done status response p =
     (case response of
        BadJSON \<Rightarrow> (False, setMessage msg_bad_response ''error'' p)
      | NoBody \<Rightarrow> (False, setMessage msg_upload_failed ''error'' p)
      | Body success err \<Rightarrow>
          if 200 \<le> status \<and> status < 300 \<and> success
          then (True, setMessage msg_uploaded ''success'' (setProgress 100 ''Bitti!'' p))
          else (False, setMessage (case err of Some t \<Rightarrow> t | None \<Rightarrow> msg_upload_failed)
                         ''error'' p))"

text \<open>
  A request that fails on the network first reaches \<open>DONE\<close> with status 0 and no response
  text, then fires \<open>onerror\<close>. Progress events only move the progress bar and are left out.
\<close>

definition xhr_upload :: "env \<Rightarrow> jsfile list \<Rightarrow> page \<Rightarrow> bool \<times> page" where
  "xhr_upload e formData p =
     (let p1 = p\<lparr>requests := requests p @ [formData]\<rparr>
      in case xhr_send e formData of
           Done status response \<Rightarrow> xhr_done status response p1
         | NetworkError \<Rightarrow>
             (False, setMessage msg_unreachable ''error'' (snd (xhr_done 0 NoBody p1))))"

text \<open>
  The submit handler: the \<open>try\<close> block, then the \<open>finally\<close> block. After a successful
  upload \<open>uploadForm.reset()\<close> empties the file input, which the page record does not hold.
  The timer that hides the progress bar 1.2 seconds later is not part of the handler.
\<close>

definition uploadForm_submit :: "env \<Rightarrow> page \<Rightarrow> page" where
  "uploadForm_submit e p =
     (if length (selectedFiles p) = 0 then setMessage msg_select_one ''error'' p
      else
        (let p1 = p\<lparr>uploadButton_disabled := True, fileInput_disabled := True\<rparr>;
             p2 = setMessage [] [] p1;
             p3 = resetProgress (p2\<lparr>progress_hidden := False\<rparr>);
             p4 = setProgress 10 ''Compressing images...'' p3;
             p5 = (case prepareCompressedFiles e (selectedFiles p4) p4 of
                     (Inl err, q) \<Rightarrow> q
                   | (Inr compressedFiles, q) \<Rightarrow>
                       (case xhr_upload e compressedFiles (setProgress 30 msg_uploading q) of
                          (True, r) \<Rightarrow>
                            updateUploadButtonState (resetPreview (r\<lparr>selectedFiles := []\<rparr>))
                        | (False, r) \<Rightarrow> r))
         in p5\<lparr>uploadButton_disabled := (length (selectedFiles p5) = 0),
                fileInput_disabled := False\<rparr>))"

section \<open>The specification's wording\<close>

text \<open>
  Two definitions written from the specification rather than from the script, to compare
  with the script's.

  Detection: the declared type is one of the proprietary types, or the name ends in one
  of the proprietary extensions, whatever the case of its letters.
\<close>

definition lower :: "char \<Rightarrow> char" where
  "lower c =
     (if 65 \<le> (of_char c :: nat) \<and> (of_char c :: nat) \<le> 90
      then char_of ((of_char c :: nat) + 32) else c)"

definition spec_proprietary :: "jsfile \<Rightarrow> bool" where
  "spec_proprietary f =
     (blob_type f = ''image/heic'' \<or> blob_type f = ''image/heif'' \<or>
      suffix ''.heic'' (map lower (file_name f)) \<or>
      suffix ''.heif'' (map lower (file_name f)))"

text \<open>The height of a resized raster: \<open>originalHeight * 1920 / originalWidth\<close>, rounded to
  the nearest integer, a half going up.\<close>

definition spec_height :: "nat \<Rightarrow> nat \<Rightarrow> int" where
  "spec_height w h = \<lfloor>(of_nat h * 1920 / of_nat w :: rat) + 1 / 2\<rfloor>"

section \<open>Notions used in the statements\<close>

text \<open>A file passes both tests of the selection loop.\<close>

definition accepted :: "jsfile \<Rightarrow> bool" where
  "accepted f = (isValidImage f \<and> \<not> blob_size f > MAX_FILE_SIZE_BYTES)"

text \<open>What one pass of the selection loop hands to \<open>setMessage\<close>.\<close>

definition file_messages :: "env \<Rightarrow> jsfile \<Rightarrow> (string \<times> string) list" where
  "file_messages e f =
     (if \<not> isValidImage f then [(msg_not_image, ''error'')]
      else if blob_size f > MAX_FILE_SIZE_BYTES then [(msg_too_large (file_name f), ''error'')]
      else (case ensureImageCanLoad e f of
              Inr loadableFile \<Rightarrow> []
            | Inl err \<Rightarrow> [(msg_no_preview (file_name f), ''error'')]))"

text \<open>The calls of \<open>setMessage\<close> made by one run of the change handler.\<close>

definition change_messages :: "env \<Rightarrow> jsfile list \<Rightarrow> page \<Rightarrow> (string \<times> string) list" where
  "change_messages e files p = drop (length (messages p)) (messages (fileInput_change e files p))"

text \<open>
  Some stage of the pipeline fails for a file: the conversion is rejected, or the file
  cannot be read or decoded, or the raster is wider than \<open>MAX_WIDTH\<close> and encoding the
  canvas yields nothing.
\<close>

definition conversion_fails :: "env \<Rightarrow> jsfile \<Rightarrow> bool" where
  "conversion_fails e f = (isHeicFile f \<and> isl (heic2any e f))"

definition decode_fails :: "env \<Rightarrow> jsfile \<Rightarrow> bool" where
  "decode_fails e f =
     (case ensureImageCanLoad e f of
        Inl err \<Rightarrow> False
      | Inr lf \<Rightarrow> \<not> reader_loads e lf \<or> image_decodes e lf = None)"

definition encode_fails :: "env \<Rightarrow> jsfile \<Rightarrow> bool" where
  "encode_fails e f =
     (case ensureImageCanLoad e f of
        Inl err \<Rightarrow> False
      | Inr lf \<Rightarrow>
          (case readFileAsImage e lf of
             Inl err \<Rightarrow> False
           | Inr img \<Rightarrow>
               MAX_WIDTH < width img \<and>
               canvas_toBlob e
                 \<lparr>canvas_width = fst (scaled_size (width img) (height img)),
                  canvas_height = snd (scaled_size (width img) (height img)),
                  canvas_drawn = img\<rparr> = None))"

definition stage_fails :: "env \<Rightarrow> jsfile \<Rightarrow> bool" where
  "stage_fails e f = (conversion_fails e f \<or> decode_fails e f \<or> encode_fails e f)"

section \<open>A browser and some files to run the script on\<close>

definition jpeg_pixels :: blob where
  "jpeg_pixels = \<lparr>blob_bytes = ''canvas-jpeg'', blob_type = ''image/jpeg''\<rparr>"

definition converted_pixels :: blob where
  "converted_pixels = \<lparr>blob_bytes = ''converted-jpeg'', blob_type = ''image/jpeg''\<rparr>"

text \<open>
  The decoder of the example browser tells rasters apart by their bytes: a 3000 by 2000
  photo, a 1000 by 3000 one, the 800 by 600 result of a conversion and the 1920 by 1280
  output of the canvas. The converter fails on a file named \<open>broken.heic\<close>.
\<close>

definition demo_env :: env where
  "demo_env =
     \<lparr>heic2any = (\<lambda>f. if file_name f = ''broken.heic'' then Inl (Error ''ERR_LIBHEIF'')
                         else Inr (OneBlob converted_pixels)),
      reader_loads = (\<lambda>f. True),
      image_decodes = (\<lambda>f.
         if blob_bytes f = ''wide-pixels'' then Some (3000, 2000)
         else if blob_bytes f = ''tall-pixels'' then Some (1000, 3000)
         else if blob_bytes f = ''converted-jpeg'' then Some (800, 600)
         else if blob_bytes f = ''canvas-jpeg'' then Some (1920, 1280)
         else None),
      canvas_toBlob = (\<lambda>c. Some jpeg_pixels),
      Date_now = (\<lambda>f. 1700000000000),
      xhr_send = (\<lambda>fs. Done 200 (Body True None))\<rparr>"

definition wide_jpg :: jsfile where
  "wide_jpg =
     \<lparr>blob_bytes = ''wide-pixels'', blob_type = ''image/jpeg'',
      file_name = ''wide.jpg'', lastModified = 1600000000000\<rparr>"

definition tall_jpg :: jsfile where
  "tall_jpg =
     \<lparr>blob_bytes = ''tall-pixels'', blob_type = ''image/jpeg'',
      file_name = ''tall.jpg'', lastModified = 1600000000001\<rparr>"

definition photo_heic :: jsfile where
  "photo_heic =
     \<lparr>blob_bytes = ''heic-pixels'', blob_type = '''',
      file_name = ''photo.heic'', lastModified = 1600000000002\<rparr>"

definition broken_heic :: jsfile where
  "broken_heic =
     \<lparr>blob_bytes = ''heic-pixels'', blob_type = ''image/heic'',
      file_name = ''broken.heic'', lastModified = 1600000000003\<rparr>"

definition notes_txt :: jsfile where
  "notes_txt =
     \<lparr>blob_bytes = ''hello'', blob_type = ''text/plain'',
      file_name = ''notes.txt'', lastModified = 1600000000004\<rparr>"

text \<open>Two files of 20 MiB and one byte: a text file and a picture.\<close>

definition huge_txt :: jsfile where
  "huge_txt =
     \<lparr>blob_bytes = replicate 20971521 CHR ''x'', blob_type = ''text/plain'',
      file_name = ''dump.txt'', lastModified = 1600000000005\<rparr>"

definition huge_png :: jsfile where
  "huge_png =
     \<lparr>blob_bytes = replicate 20971521 CHR ''x'', blob_type = ''image/png'',
      file_name = ''scan.png'', lastModified = 1600000000006\<rparr>"

definition blank_page :: page where
  "blank_page =
     \<lparr>selectedFiles = [], messages = [], previews = [],
      uploadButton_disabled = True, fileInput_disabled = False,
      progress_hidden = True, progress_percent = 0, progress_text = [],
      requests = []\<rparr>"

text \<open>
  A selection of twelve files. Among the first ten are a text file and a HEIC photo; the
  last two are an oversized picture and a text file.
\<close>

definition twelve_files :: "jsfile list" where
  "twelve_files =
     [wide_jpg, tall_jpg, notes_txt, wide_jpg, wide_jpg, wide_jpg, wide_jpg, wide_jpg,
      wide_jpg, photo_heic, huge_png, notes_txt]"

text \<open>A selection with a text file first, and a batch whose second file cannot be converted.\<close>

definition three_files :: "jsfile list" where
  "three_files = [notes_txt, tall_jpg, photo_heic]"

definition failing_batch :: "jsfile list" where
  "failing_batch = [tall_jpg, broken_heic, wide_jpg]"

section \<open>Lemmas: names and patterns\<close>

lemma of_char_canonicalize:
  "(of_char (canonicalize c) :: nat) =
     (if 97 \<le> (of_char c :: nat) \<and> (of_char c :: nat) \<le> 122 then of_char c - 32 else of_char c)"
proof -
  have "(of_char c :: nat) - 32 < 256"
    using nat_of_char_less_256[of c] by arith
  then show ?thesis
    by (simp add: canonicalize_def)
qed

lemma of_char_lower:
  "(of_char (lower c) :: nat) =
     (if 65 \<le> (of_char c :: nat) \<and> (of_char c :: nat) \<le> 90 then of_char c + 32 else of_char c)"
  by (simp add: lower_def)

lemma case_fold_nat:
  fixes a b :: nat
  shows "((if 97 \<le> a \<and> a \<le> 122 then a - 32 else a) = (if 97 \<le> b \<and> b \<le> 122 then b - 32 else b))
     \<longleftrightarrow> ((if 65 \<le> a \<and> a \<le> 90 then a + 32 else a) = (if 65 \<le> b \<and> b \<le> 90 then b + 32 else b))"
  by (simp split: if_splits) arith

lemma canonicalize_eq_iff_lower:
  "canonicalize c = canonicalize d \<longleftrightarrow> lower c = lower d"
proof -
  have "canonicalize c = canonicalize d \<longleftrightarrow>
        (of_char (canonicalize c) :: nat) = of_char (canonicalize d)"
    by simp
  also have "\<dots> \<longleftrightarrow> (of_char (lower c) :: nat) = of_char (lower d)"
    unfolding of_char_canonicalize of_char_lower by (rule case_fold_nat)
  also have "\<dots> \<longleftrightarrow> lower c = lower d"
    by simp
  finally show ?thesis .
qed

lemma map_canonicalize_eq_iff:
  "map canonicalize xs = map canonicalize ys \<longleftrightarrow> map lower xs = map lower ys"
  by (induction xs ys rule: list_induct2') (auto simp: canonicalize_eq_iff_lower)

lemma regex_test_lit:
  "regex_test (lit_end_matches lit) s \<longleftrightarrow> suffix (map lower lit) (map lower s)"
  by (induction s) (auto simp: lit_end_matches_def suffix_Cons map_canonicalize_eq_iff)

lemma lower_heic: "map lower ''.heic'' = ''.heic''"
  by code_simp

lemma lower_heif: "map lower ''.heif'' = ''.heif''"
  by code_simp

lemma isHeicFile_spec: "isHeicFile f \<longleftrightarrow> spec_proprietary f"
  using regex_test_lit[of "''.heic''" "file_name f"] regex_test_lit[of "''.heif''" "file_name f"]
  unfolding isHeicFile_def spec_proprietary_def re_heic_def re_heif_def HEIC_TYPES_def
    lower_heic lower_heif
  by auto

section \<open>Lemmas: rounding\<close>

lemma pow2_power_int: "pow2 k = power_int 2 k"
  by (simp add: pow2_def power_int_def inverse_eq_divide power_divide)

lemma pow2_pos: "0 < pow2 k"
  by (simp add: pow2_power_int)

lemma pow2_add: "pow2 (a + b) = pow2 a * pow2 b"
  by (simp add: pow2_power_int power_int_add)

lemma pow2_nat: "pow2 (int n) = 2 ^ n"
  by (simp add: pow2_def)

lemma pow2_neg_nat: "pow2 (- int n) = 1 / 2 ^ n"
  by (simp add: pow2_power_int power_int_minus_divide)

lemma rne_error: "\<bar>of_int (rne y) - y\<bar> \<le> 1 / 2"
proof -
  have "of_int \<lfloor>y\<rfloor> \<le> y" "y < of_int \<lfloor>y\<rfloor> + 1"
    by linarith+
  then show ?thesis
    by (auto simp: rne_def Let_def abs_le_iff)
qed

lemma binade_lower:
  assumes "0 < x"
  shows "pow2 (binade x) \<le> x"
proof (cases "1 \<le> x")
  case True
  define n where "n = nat \<lfloor>x\<rfloor>"
  have n: "0 < n" "rat_of_nat n \<le> x"
    using True by (auto simp: n_def)
  have "(2::nat) ^ (floorlog 2 n - 1) \<le> n"
    using floorlog_bounds[of n 2] n by simp
  then have "rat_of_nat (2 ^ (floorlog 2 n - 1)) \<le> rat_of_nat n"
    by (rule of_nat_mono)
  then have "(2::rat) ^ (floorlog 2 n - 1) \<le> rat_of_nat n"
    by (simp only: of_nat_power of_nat_numeral)
  then have "(2::rat) ^ (floorlog 2 n - 1) \<le> x"
    using n by linarith
  moreover have "floorlog 2 n \<noteq> 0"
    using n by (simp add: floorlog_eq_zero_iff)
  then have "binade x = int (floorlog 2 n - 1)"
    using True by (simp add: binade_def n_def of_nat_diff)
  ultimately show ?thesis
    by (simp only: pow2_nat)
next
  case False
  define m where "m = nat (\<lceil>1 / x\<rceil> - 1)"
  define k where "k = floorlog 2 m"
  have "1 < 1 / x"
    using False assms by (simp add: field_simps)
  then have "2 \<le> \<lceil>1 / x\<rceil>"
    by (simp add: le_ceiling_iff)
  then have "int m = \<lceil>1 / x\<rceil> - 1"
    unfolding m_def by linarith
  then have "rat_of_int (int m) = rat_of_int (\<lceil>1 / x\<rceil> - 1)"
    by (rule arg_cong)
  then have m2: "rat_of_nat m + 1 = of_int \<lceil>1 / x\<rceil>"
    by simp
  have m: "0 < m"
    using \<open>int m = \<lceil>1 / x\<rceil> - 1\<close> \<open>2 \<le> \<lceil>1 / x\<rceil>\<close> by linarith
  have "m < 2 ^ k"
    using floorlog_bounds[of m 2] m unfolding k_def by simp
  then have "m + 1 \<le> 2 ^ k"
    by simp
  then have "rat_of_nat (m + 1) \<le> rat_of_nat (2 ^ k)"
    by (rule of_nat_mono)
  then have "rat_of_nat m + 1 \<le> (2::rat) ^ k"
    by (simp only: of_nat_power of_nat_numeral of_nat_add of_nat_1)
  then have "of_int \<lceil>1 / x\<rceil> \<le> (2::rat) ^ k"
    using m2 by simp
  then have "1 / x \<le> 2 ^ k"
    using le_of_int_ceiling[of "1 / x"] by linarith
  then have "1 / 2 ^ k \<le> x"
    using assms by (simp add: field_simps)
  moreover have "binade x = - int k"
    using False by (simp add: binade_def m_def k_def)
  ultimately show ?thesis
    by (simp add: pow2_neg_nat)
qed

lemma binade_upper:
  assumes "0 < x"
  shows "x < pow2 (binade x + 1)"
proof (cases "1 \<le> x")
  case True
  define n where "n = nat \<lfloor>x\<rfloor>"
  have "0 < n"
    using True by (simp add: n_def)
  have "x < of_int \<lfloor>x\<rfloor> + 1"
    by linarith
  then have n: "x < rat_of_nat n + 1"
    using True by (simp add: n_def)
  have "n < 2 ^ floorlog 2 n"
    using floorlog_bounds[of n 2] \<open>0 < n\<close> by simp
  then have "n + 1 \<le> 2 ^ floorlog 2 n"
    by simp
  then have "rat_of_nat (n + 1) \<le> rat_of_nat (2 ^ floorlog 2 n)"
    by (rule of_nat_mono)
  then have "rat_of_nat n + 1 \<le> (2::rat) ^ floorlog 2 n"
    by (simp only: of_nat_power of_nat_numeral of_nat_add of_nat_1)
  then have "x < (2::rat) ^ floorlog 2 n"
    using n by linarith
  moreover have "binade x + 1 = int (floorlog 2 n)"
    using True by (simp add: binade_def n_def)
  ultimately show ?thesis
    by (simp only: pow2_nat)
next
  case False
  define m where "m = nat (\<lceil>1 / x\<rceil> - 1)"
  define k where "k = floorlog 2 m"
  have "1 < 1 / x"
    using False assms by (simp add: field_simps)
  then have "2 \<le> \<lceil>1 / x\<rceil>"
    by (simp add: le_ceiling_iff)
  then have "int m = \<lceil>1 / x\<rceil> - 1"
    unfolding m_def by linarith
  then have "rat_of_int (int m) = rat_of_int (\<lceil>1 / x\<rceil> - 1)"
    by (rule arg_cong)
  then have m2: "rat_of_nat m = of_int \<lceil>1 / x\<rceil> - 1"
    by simp
  have m: "0 < m"
    using \<open>int m = \<lceil>1 / x\<rceil> - 1\<close> \<open>2 \<le> \<lceil>1 / x\<rceil>\<close> by linarith
  have "k \<noteq> 0"
    using m by (simp add: k_def floorlog_eq_zero_iff)
  then have k: "0 < k"
    by simp
  have "2 ^ (k - 1) \<le> m"
    using floorlog_bounds[of m 2] m unfolding k_def by simp
  then have "rat_of_nat (2 ^ (k - 1)) \<le> rat_of_nat m"
    by (rule of_nat_mono)
  then have "(2::rat) ^ (k - 1) \<le> rat_of_nat m"
    by (simp only: of_nat_power of_nat_numeral)
  moreover have "rat_of_nat m < 1 / x"
    using m2 ceiling_correct[of "1 / x"] by linarith
  ultimately have "2 ^ (k - 1) < 1 / x"
    by linarith
  then have "x < 1 / 2 ^ (k - 1)"
    using assms by (simp add: field_simps)
  moreover have "binade x + 1 = - int (k - 1)"
    using False k by (simp add: binade_def m_def k_def of_nat_diff)
  ultimately show ?thesis
    by (simp only: pow2_neg_nat)
qed

lemma binary64_error:
  assumes "0 < x"
  shows "\<bar>binary64 x - x\<bar> \<le> x / 2 ^ 53"
proof -
  define u where "u = pow2 (binade x - 52)"
  have u: "0 < u"
    by (simp add: u_def pow2_pos)
  have "pow2 (binade x) = pow2 (binade x - 52) * pow2 52"
    using pow2_add[of "binade x - 52" 52] by simp
  moreover have "pow2 52 = 2 ^ 52"
    by (simp add: pow2_def)
  ultimately have ux: "u * 2 ^ 52 \<le> x"
    using binade_lower[OF assms] by (simp add: u_def)
  have ax: "\<bar>x\<bar> = x"
    using assms by simp
  have "binary64 x = of_int (rne (x / u)) * u"
    using assms by (simp add: binary64_def Let_def ax u_def)
  then have "binary64 x - x = (of_int (rne (x / u)) - x / u) * u"
    using u by (simp add: field_simps)
  then have "\<bar>binary64 x - x\<bar> = \<bar>of_int (rne (x / u)) - x / u\<bar> * u"
    using u by (simp add: abs_mult)
  also have "\<dots> \<le> 1 / 2 * u"
    using rne_error[of "x / u"] u by (simp add: mult_right_mono)
  also have "\<dots> \<le> x / 2 ^ 53"
    using ux by simp
  finally show ?thesis .
qed

lemma binary64_between:
  assumes "0 < x"
  shows "x - x / 9007199254740992 \<le> binary64 x" and "binary64 x \<le> x + x / 9007199254740992"
proof -
  have "\<bar>binary64 x - x\<bar> \<le> x / 9007199254740992"
    using binary64_error[OF assms] by simp
  then show "x - x / 9007199254740992 \<le> binary64 x"
    and "binary64 x \<le> x + x / 9007199254740992"
    by linarith+
qed

lemma scaled_error:
  fixes w h :: nat
  assumes "0 < w"
  shows "\<bar>js_mul (of_nat h) (js_div 1920 (of_nat w)) - of_nat h * 1920 / of_nat w\<bar>
           \<le> 3 * (of_nat h * 1920 / of_nat w) / 9007199254740992"
proof -
  define x where "x = (1920 / of_nat w :: rat)"
  define s where "s = binary64 x"
  define q where "q = (of_nat h * x :: rat)"
  define d where "d = s - x"
  have x: "0 < x"
    using assms by (simp add: x_def)
  have e1: "- (x / 9007199254740992) \<le> d" "d \<le> x / 9007199254740992"
    using binary64_between[OF x] by (simp_all add: d_def s_def)
  have q: "0 \<le> q"
    using x by (simp add: q_def)
  have qq: "of_nat h * 1920 / of_nat w = q"
    by (simp add: q_def x_def)
  have hs: "of_nat h * s = q + of_nat h * d"
    by (simp add: q_def d_def algebra_simps)
  have "of_nat h * d \<le> of_nat h * (x / 9007199254740992)"
    by (rule mult_left_mono[OF e1(2)]) simp
  then have up: "of_nat h * d \<le> q / 9007199254740992"
    by (simp add: q_def)
  have "of_nat h * (- (x / 9007199254740992)) \<le> of_nat h * d"
    by (rule mult_left_mono[OF e1(1)]) simp
  then have lo: "- (q / 9007199254740992) \<le> of_nat h * d"
    by (simp add: q_def)
  have "\<bar>binary64 (of_nat h * s) - q\<bar> \<le> 3 * q / 9007199254740992"
  proof (cases "of_nat h * s = 0")
    case True
    then have "q = 0"
      using hs up lo q by linarith
    then show ?thesis
      using True by (simp add: binary64_def)
  next
    case False
    have "0 \<le> of_nat h * s"
      using hs lo q by linarith
    then have pos: "0 < of_nat h * s"
      using False by linarith
    show ?thesis
      using binary64_between[OF pos] hs up lo q by linarith
  qed
  then show ?thesis
    unfolding js_mul_def js_div_def s_def[symmetric] x_def[symmetric] qq .
qed

lemma scaled_nonneg:
  fixes w h :: nat
  assumes "0 < w"
  shows "0 \<le> js_mul (of_nat h) (js_div 1920 (of_nat w))"
proof -
  define q where "q = (of_nat h * 1920 / of_nat w :: rat)"
  have "0 \<le> q"
    by (simp add: q_def)
  then show ?thesis
    using scaled_error[OF assms, of h] unfolding q_def[symmetric] by linarith
qed

lemma Math_round_scaled_le:
  fixes w h :: nat
  assumes "0 < w" and "h \<le> w"
  shows "Math_round (js_mul (of_nat h) (js_div 1920 (of_nat w))) \<le> 1920"
proof -
  define q where "q = (of_nat h * 1920 / of_nat w :: rat)"
  have "rat_of_nat h \<le> rat_of_nat w"
    using assms(2) by (rule of_nat_mono)
  then have "q \<le> 1920"
    using assms(1) by (simp add: q_def field_simps)
  moreover have "0 \<le> q"
    by (simp add: q_def)
  ultimately have "js_mul (of_nat h) (js_div 1920 (of_nat w)) + 1 / 2 < of_int 1921"
    using scaled_error[OF assms(1), of h] unfolding q_def[symmetric] by linarith
  then have "\<lfloor>js_mul (of_nat h) (js_div 1920 (of_nat w)) + 1 / 2\<rfloor> < 1921"
    by (simp only: floor_less_iff)
  then show ?thesis
    by (simp add: Math_round_def)
qed

lemma Math_round_scaled_exact:
  fixes w h :: nat
  assumes w: "0 < w" and tie: "(3840 * h) mod (2 * w) \<noteq> w" and h: "h < 2 ^ 32"
  shows "Math_round (js_mul (of_nat h) (js_div 1920 (of_nat w))) = spec_height w h"
proof -
  define q where "q = (of_nat h * 1920 / of_nat w :: rat)"
  define p where "p = js_mul (of_nat h) (js_div 1920 (of_nat w))"
  define n where "n = \<lfloor>q + 1 / 2\<rfloor>"
  define r where "r = (1 / (2 * of_nat w) :: rat)"
  have W: "0 < rat_of_nat w"
    using w by simp
  have q0: "0 \<le> q"
    by (simp add: q_def)
  have qw: "2 * rat_of_nat w * q = rat_of_int (3840 * int h)"
    using w by (simp add: q_def)
  have rw: "2 * rat_of_nat w * r = 1"
    using w by (simp add: r_def)
  have r0: "0 < r"
    using w by (simp add: r_def)
  have fl: "of_int n \<le> q + 1 / 2" "q + 1 / 2 < of_int n + 1"
    unfolding n_def by linarith+
  \<comment> \<open>the floor bounds, over the integers\<close>
  have "2 * rat_of_nat w * of_int n \<le> 2 * rat_of_nat w * (q + 1 / 2)"
    using fl(1) W by (intro mult_left_mono) simp_all
  then have "rat_of_int (2 * int w * n) \<le> rat_of_int (3840 * int h + int w)"
    using qw by (simp add: algebra_simps)
  then have lo_int: "2 * int w * n \<le> 3840 * int h + int w"
    by (simp only: of_int_le_iff)
  have "2 * rat_of_nat w * (q + 1 / 2) < 2 * rat_of_nat w * (of_int n + 1)"
    using fl(2) W by (intro mult_strict_left_mono) simp_all
  then have "rat_of_int (3840 * int h + int w) < rat_of_int (2 * int w * (n + 1))"
    using qw by (simp add: algebra_simps)
  then have hi_int: "3840 * int h + int w < 2 * int w * (n + 1)"
    by (simp only: of_int_less_iff)
  \<comment> \<open>no tie\<close>
  have "2 * int w * n \<noteq> 3840 * int h + int w"
  proof
    assume eq: "2 * int w * n = 3840 * int h + int w"
    then have "3840 * int h = int w + (n - 1) * (2 * int w)"
      by (simp add: algebra_simps)
    then have "(3840 * int h) mod (2 * int w) = int w mod (2 * int w)"
      by (simp only: mod_mult_self1)
    also have "\<dots> = int w"
      using w by simp
    finally have "int ((3840 * h) mod (2 * w)) = int w"
      by (simp add: zmod_int)
    then show False
      using tie by simp
  qed
  then have lo_strict: "2 * int w * n + 1 \<le> 3840 * int h + int w"
    using lo_int by linarith
  have hi_strict: "3840 * int h + int w + 1 \<le> 2 * int w * (n + 1)"
    using hi_int by linarith
  have "rat_of_int (2 * int w * n + 1) \<le> rat_of_int (3840 * int h + int w)"
    using lo_strict by (simp only: of_int_le_iff)
  then have "2 * rat_of_nat w * (of_int n + r) \<le> 2 * rat_of_nat w * (q + 1 / 2)"
    using qw rw by (simp add: algebra_simps)
  then have lo: "of_int n + r \<le> q + 1 / 2"
    using W by (simp only: mult_le_cancel_left_pos[of "2 * rat_of_nat w"])
  have "rat_of_int (3840 * int h + int w + 1) \<le> rat_of_int (2 * int w * (n + 1))"
    using hi_strict by (simp only: of_int_le_iff)
  then have "2 * rat_of_nat w * (q + 1 / 2 + r) \<le> 2 * rat_of_nat w * (of_int n + 1)"
    using qw rw by (simp add: algebra_simps)
  then have hi: "q + 1 / 2 + r \<le> of_int n + 1"
    using W by (simp only: mult_le_cancel_left_pos[of "2 * rat_of_nat w"])
  \<comment> \<open>the rounding error is below the gap\<close>
  have "rat_of_nat h < 2 ^ 32"
    using h by (metis of_nat_less_iff of_nat_numeral of_nat_power)
  then have "3 * (rat_of_nat h * 1920) / 9007199254740992 < 1 / 2"
    by simp
  then have "(3 * (rat_of_nat h * 1920) / 9007199254740992) / rat_of_nat w < (1 / 2) / rat_of_nat w"
    using W by (rule divide_strict_right_mono)
  then have gap: "3 * q / 9007199254740992 < r"
    by (simp add: q_def r_def)
  have err: "\<bar>p - q\<bar> \<le> 3 * q / 9007199254740992"
    unfolding p_def q_def by (rule scaled_error[OF w])
  have "of_int n \<le> p + 1 / 2" "p + 1 / 2 < of_int n + 1"
    using err gap lo hi by linarith+
  then have "\<lfloor>p + 1 / 2\<rfloor> = n"
    by (rule floor_unique)
  then show ?thesis
    by (simp add: Math_round_def spec_height_def p_def n_def q_def)
qed

section \<open>Lemmas: the loops\<close>

lemma validate_each_selectedFiles:
  "selectedFiles (validate_each e fs p) = selectedFiles p @ filter accepted fs"
  by (induction fs arbitrary: p)
     (auto simp: accepted_def setMessage_def Let_def split: sum.splits)

lemma validate_each_messages:
  "messages (validate_each e fs p) = messages p @ concat (map (file_messages e) fs)"
  by (induction fs arbitrary: p)
     (auto simp: file_messages_def setMessage_def Let_def split: sum.splits)

lemma fileInput_change_selectedFiles:
  "selectedFiles (fileInput_change e files p) = filter accepted (take MAX_FILES files)"
  by (simp add: fileInput_change_def Let_def updateUploadButtonState_def
      validate_each_selectedFiles setMessage_def resetPreview_def)

lemma change_messages_eq:
  "change_messages e files p =
     ([], []) #
     (if files = [] then []
      else (if length files > MAX_FILES then [(msg_too_many, ''error'')] else []) @
           concat (map (file_messages e) (take MAX_FILES files)) @
           (if filter accepted (take MAX_FILES files) = [] then [(msg_none_valid, ''error'')]
            else []))"
  by (simp add: change_messages_def fileInput_change_def Let_def updateUploadButtonState_def
      validate_each_selectedFiles validate_each_messages setMessage_def resetPreview_def)

lemma prepare_each_fails:
  "\<exists>f\<in>set fs. isl (compressImage e f) \<Longrightarrow>
     \<exists>err. prepare_each e fs acc p = (Inl err, setMessage msg_not_processed ''error'' p)"
proof (induction fs arbitrary: acc)
  case Nil
  then show ?case by simp
next
  case (Cons f fs)
  then show ?case
    by (cases "compressImage e f") auto
qed

lemma prepare_each_succeeds:
  "\<forall>f\<in>set fs. \<not> isl (compressImage e f) \<Longrightarrow>
     prepare_each e fs acc p = (Inr (acc @ map (\<lambda>f. projr (compressImage e f)) fs), p)"
proof (induction fs arbitrary: acc)
  case Nil
  then show ?case by simp
next
  case (Cons f fs)
  then show ?case
    by (cases "compressImage e f") auto
qed

lemma prepare_each_Inr:
  assumes "prepare_each e fs acc p = (Inr outs, q)"
  shows "q = p" and "outs = acc @ map (\<lambda>f. projr (compressImage e f)) fs"
    and "\<forall>f\<in>set fs. compressImage e f = Inr (projr (compressImage e f))"
proof -
  have ok: "\<forall>f\<in>set fs. \<not> isl (compressImage e f)"
    using prepare_each_fails[of fs e acc p] assms by auto
  show "q = p" and "outs = acc @ map (\<lambda>f. projr (compressImage e f)) fs"
    using prepare_each_succeeds[OF ok, of acc p] assms by simp_all
  show "\<forall>f\<in>set fs. compressImage e f = Inr (projr (compressImage e f))"
    using ok by (auto simp: isl_def split: sum.splits)
qed

lemma compressImage_fails_iff:
  "isl (compressImage e f) \<longleftrightarrow> stage_fails e f"
  by (auto simp: compressImage_def stage_fails_def conversion_fails_def decode_fails_def
      encode_fails_def ensureImageCanLoad_def convertHeicToJpeg_def readFileAsImage_def Let_def
      split: sum.splits option.splits prod.splits if_splits)

section \<open>Lemmas: what the pipeline returns\<close>

lemma regex_replace_cases:
  "(\<not> regex_test m s \<and> regex_replace m s new = s) \<or> (\<exists>pre. regex_replace m s new = pre @ new)"
proof (induction s)
  case Nil
  then show ?case by auto
next
  case (Cons c cs)
  show ?case
  proof (cases "m (c # cs)")
    case True
    then show ?thesis by auto
  next
    case False
    from Cons show ?thesis
    proof
      assume "\<not> regex_test m cs \<and> regex_replace m cs new = cs"
      then show ?thesis using False by simp
    next
      assume "\<exists>pre. regex_replace m cs new = pre @ new"
      then obtain pre where "regex_replace m cs new = pre @ new" ..
      then have "regex_replace m (c # cs) new = (c # pre) @ new"
        using False by simp
      then show ?thesis by blast
    qed
  qed
qed

lemma regex_test_alternative:
  "regex_test re_heic_or_heif s \<longleftrightarrow> regex_test re_heic s \<or> regex_test re_heif s"
  by (induction s) (auto simp: re_heic_or_heif_def re_heic_def re_heif_def)

lemma regex_test_heic: "regex_test re_heic s \<longleftrightarrow> suffix ''.heic'' (map lower s)"
  using regex_test_lit[of "''.heic''" s] by (simp only: re_heic_def lower_heic)

lemma regex_test_heif: "regex_test re_heif s \<longleftrightarrow> suffix ''.heif'' (map lower s)"
  using regex_test_lit[of "''.heif''" s] by (simp only: re_heif_def lower_heif)

lemma lower_jpg: "map lower ''.jpg'' = ''.jpg''"
  by code_simp

lemma jpg_no_heic_suffix: "\<not> suffix ''.heic'' (pre @ ''.jpg'')"
  by (auto simp: suffix_def dest: arg_cong[where f = last])

lemma jpg_no_heif_suffix: "\<not> suffix ''.heif'' (pre @ ''.jpg'')"
  by (auto simp: suffix_def dest: arg_cong[where f = last])

lemma replaced_name_not_heic:
  "\<not> regex_test re_heic (regex_replace re_heic_or_heif nm ''.jpg'')"
  "\<not> regex_test re_heif (regex_replace re_heic_or_heif nm ''.jpg'')"
proof -
  let ?r = "regex_replace re_heic_or_heif nm ''.jpg''"
  have "\<not> regex_test re_heic ?r \<and> \<not> regex_test re_heif ?r"
    using regex_replace_cases[of re_heic_or_heif nm "''.jpg''"]
  proof
    assume "\<not> regex_test re_heic_or_heif nm \<and> ?r = nm"
    then show ?thesis
      by (simp add: regex_test_alternative)
  next
    assume "\<exists>pre. ?r = pre @ ''.jpg''"
    then obtain pre where "?r = pre @ ''.jpg''" ..
    then have "map lower ?r = map lower pre @ ''.jpg''"
      by (simp only: map_append lower_jpg)
    then show ?thesis
      using jpg_no_heic_suffix[of "map lower pre"] jpg_no_heif_suffix[of "map lower pre"]
      by (simp only: regex_test_heic regex_test_heif) simp
  qed
  then show "\<not> regex_test re_heic ?r" and "\<not> regex_test re_heif ?r"
    by simp_all
qed

lemma ensureImageCanLoad_not_heic:
  assumes "ensureImageCanLoad e f = Inr lf"
  shows "\<not> isHeicFile lf"
proof (cases "isHeicFile f")
  case False
  then show ?thesis
    using assms by (simp add: ensureImageCanLoad_def)
next
  case True
  then obtain out where "lf = new_File (first_variant out)
      (regex_replace re_heic_or_heif (file_name f) ''.jpg'') ''image/jpeg'' (Date_now e f)"
    using assms
    by (auto simp: ensureImageCanLoad_def convertHeicToJpeg_def Let_def split: sum.splits)
  then show ?thesis
    using replaced_name_not_heic[of "file_name f"]
    by (simp add: isHeicFile_def new_File_def HEIC_TYPES_def)
qed

lemma compressImage_cases:
  assumes "compressImage e f = Inr out"
  obtains lf img where "ensureImageCanLoad e f = Inr lf" "readFileAsImage e lf = Inr img"
    "width img \<le> MAX_WIDTH" "out = lf"
  | lf img b where "ensureImageCanLoad e f = Inr lf" "readFileAsImage e lf = Inr img"
    "MAX_WIDTH < width img"
    "canvas_toBlob e \<lparr>canvas_width = fst (scaled_size (width img) (height img)),
        canvas_height = snd (scaled_size (width img) (height img)), canvas_drawn = img\<rparr> = Some b"
    "out = new_File b (file_name lf) ''image/jpeg'' (Date_now e lf)"
  using assms
  by (auto simp: compressImage_def Let_def split: sum.splits if_splits option.splits prod.splits)

lemma compressImage_not_heic:
  assumes "compressImage e f = Inr out"
  shows "\<not> isHeicFile out"
  using assms
proof (cases rule: compressImage_cases)
  case (1 lf img)
  then show ?thesis
    using ensureImageCanLoad_not_heic by simp
next
  case (2 lf img b)
  then show ?thesis
    using ensureImageCanLoad_not_heic[of e f lf]
    by (simp add: isHeicFile_def new_File_def HEIC_TYPES_def)
qed

section \<open>Lemmas: the example browser\<close>

lemma canonicalize_eq_nat:
  "canonicalize c = canonicalize d \<longleftrightarrow>
     (if 97 \<le> (of_char c :: nat) \<and> (of_char c :: nat) \<le> 122 then of_char c - 32 else of_char c)
   = (if 97 \<le> (of_char d :: nat) \<and> (of_char d :: nat) \<le> 122 then of_char d - 32 else (of_char d :: nat))"
proof -
  have "canonicalize c = canonicalize d \<longleftrightarrow>
        (of_char (canonicalize c) :: nat) = of_char (canonicalize d)"
    by simp
  then show ?thesis
    by (simp only: of_char_canonicalize)
qed

lemmas match_simps = lit_end_matches_def re_heic_def re_heif_def re_heic_or_heif_def
  canonicalize_eq_nat

lemma wide_not_heic: "\<not> isHeicFile wide_jpg"
  by (simp add: isHeicFile_def wide_jpg_def HEIC_TYPES_def match_simps)

lemma tall_not_heic: "\<not> isHeicFile tall_jpg"
  by (simp add: isHeicFile_def tall_jpg_def HEIC_TYPES_def match_simps)

lemma demo_ensure_wide: "ensureImageCanLoad demo_env wide_jpg = Inr wide_jpg"
  by (simp add: ensureImageCanLoad_def wide_not_heic)

lemma demo_ensure_tall: "ensureImageCanLoad demo_env tall_jpg = Inr tall_jpg"
  by (simp add: ensureImageCanLoad_def tall_not_heic)

lemma demo_read_tall:
  "readFileAsImage demo_env tall_jpg = Inr \<lparr>width = 1000, height = 3000, image_src = tall_jpg\<rparr>"
  by (simp add: readFileAsImage_def demo_env_def tall_jpg_def)

lemma demo_read_wide:
  "readFileAsImage demo_env wide_jpg = Inr \<lparr>width = 3000, height = 2000, image_src = wide_jpg\<rparr>"
  by (simp add: readFileAsImage_def demo_env_def wide_jpg_def)


lemma demo_compress_wide:
  "compressImage demo_env wide_jpg =
     Inr (new_File jpeg_pixels ''wide.jpg'' ''image/jpeg'' 1700000000000)"
  by (simp add: compressImage_def demo_ensure_wide demo_read_wide MAX_WIDTH_def Let_def
      split: prod.splits) (simp add: demo_env_def wide_jpg_def)

section \<open>Resizing: the claims\<close>

text \<open>
  Claim C4. When the decoded raster of the normalized file is at most \<open>MAX_WIDTH\<close> wide,
  \<open>compressImage\<close> returns the normalized file itself: the same bytes, type, name and
  modification time. The encoder plays no part (any other \<open>canvas.toBlob\<close> gives the same
  result), and a file that is not detected as HEIC is its own normalized file.
\<close>

theorem narrow_raster_passes_through:
  assumes "ensureImageCanLoad e f = Inr lf"
    and "readFileAsImage e lf = Inr img"
    and "width img \<le> MAX_WIDTH"
  shows "compressImage e f = Inr lf
    \<and> compressImage (e\<lparr>canvas_toBlob := encoder\<rparr>) f = Inr lf
    \<and> (\<not> isHeicFile f \<longrightarrow> lf = f)"
proof -
  have "ensureImageCanLoad (e\<lparr>canvas_toBlob := encoder\<rparr>) f = ensureImageCanLoad e f"
    by (simp add: ensureImageCanLoad_def convertHeicToJpeg_def split: sum.splits)
  moreover have "readFileAsImage (e\<lparr>canvas_toBlob := encoder\<rparr>) lf = readFileAsImage e lf"
    by (simp add: readFileAsImage_def)
  moreover have "\<not> isHeicFile f \<longrightarrow> lf = f"
    using assms(1) by (simp add: ensureImageCanLoad_def split: if_splits)
  ultimately show ?thesis
    using assms by (simp add: compressImage_def)
qed

theorem narrow_raster_passes_through_witness:
  "compressImage demo_env tall_jpg = Inr tall_jpg
   \<and> compressImage (demo_env\<lparr>canvas_toBlob := (\<lambda>c. None)\<rparr>) tall_jpg = Inr tall_jpg"
  using narrow_raster_passes_through[OF demo_ensure_tall demo_read_tall, of "\<lambda>c. None"]
  by (simp add: MAX_WIDTH_def)

text \<open>
  Claim C10. The decision to pass a file through reads the width of the raster only: a
  raster at most \<open>MAX_WIDTH\<close> wide is passed through whatever its height, so a raster
  taller than \<open>MAX_WIDTH\<close> keeps its height.
\<close>

theorem pass_through_ignores_height:
  assumes "ensureImageCanLoad e f = Inr lf"
    and "reader_loads e lf"
    and "image_decodes e lf = Some (w, h)"
    and "w \<le> MAX_WIDTH"
  shows "compressImage e f = Inr lf \<and>
         (MAX_WIDTH < h \<longrightarrow>
            readFileAsImage e lf = Inr \<lparr>width = w, height = h, image_src = lf\<rparr> \<and>
            \<not> h \<le> MAX_WIDTH)"
  using assms by (simp add: compressImage_def readFileAsImage_def)

theorem pass_through_ignores_height_witness:
  "compressImage demo_env tall_jpg = Inr tall_jpg
   \<and> readFileAsImage demo_env tall_jpg = Inr \<lparr>width = 1000, height = 3000, image_src = tall_jpg\<rparr>
   \<and> \<not> (3000::nat) \<le> MAX_WIDTH"
proof -
  have r: "reader_loads demo_env tall_jpg"
    by (simp add: demo_env_def)
  have d: "image_decodes demo_env tall_jpg = Some (1000, 3000)"
    by (simp add: demo_env_def tall_jpg_def)
  have w: "(1000::nat) \<le> MAX_WIDTH" and h: "MAX_WIDTH < (3000::nat)"
    by (simp_all add: MAX_WIDTH_def)
  show ?thesis
    using pass_through_ignores_height[OF demo_ensure_tall r d w] h by simp
qed

text \<open>
  Claim C6. Running \<open>compressImage\<close> on one of its own results whose raster is at most
  \<open>MAX_WIDTH\<close> wide returns that result unchanged.
\<close>

theorem compressImage_idempotent:
  assumes "compressImage e f = Inr g"
    and "readFileAsImage e g = Inr img"
    and "width img \<le> MAX_WIDTH"
  shows "compressImage e g = Inr g"
proof -
  have "\<not> isHeicFile g"
    using assms(1) by (rule compressImage_not_heic)
  then have "ensureImageCanLoad e g = Inr g"
    by (simp add: ensureImageCanLoad_def)
  then show ?thesis
    using assms(2,3) by (simp add: compressImage_def)
qed

theorem compressImage_idempotent_witness:
  "compressImage demo_env wide_jpg =
     Inr (new_File jpeg_pixels ''wide.jpg'' ''image/jpeg'' 1700000000000)
   \<and> compressImage demo_env (new_File jpeg_pixels ''wide.jpg'' ''image/jpeg'' 1700000000000) =
     Inr (new_File jpeg_pixels ''wide.jpg'' ''image/jpeg'' 1700000000000)"
proof -
  let ?g = "new_File jpeg_pixels ''wide.jpg'' ''image/jpeg'' 1700000000000"
  have r: "readFileAsImage demo_env ?g = Inr \<lparr>width = 1920, height = 1280, image_src = ?g\<rparr>"
    by (simp add: readFileAsImage_def demo_env_def new_File_def jpeg_pixels_def)
  have w: "width \<lparr>width = 1920, height = 1280, image_src = ?g\<rparr> \<le> MAX_WIDTH"
    by (simp add: MAX_WIDTH_def)
  show ?thesis
    using compressImage_idempotent[OF demo_compress_wide r w] demo_compress_wide by simp
qed

section \<open>Lemmas: renaming\<close>

lemma regex_test_length:
  assumes "regex_test re_heic_or_heif s"
  shows "5 \<le> length s"
proof -
  have "suffix ''.heic'' (map lower s) \<or> suffix ''.heif'' (map lower s)"
    using assms by (simp add: regex_test_alternative regex_test_heic regex_test_heif)
  then have "length ''.heic'' \<le> length (map lower s) \<or> length ''.heif'' \<le> length (map lower s)"
    using suffix_length_le by blast
  then show ?thesis
    by simp
qed

lemma match_length:
  assumes "re_heic_or_heif s"
  shows "length s = 5"
proof -
  have "length (map canonicalize s) = 5"
    using assms by (auto simp: re_heic_or_heif_def lit_end_matches_def)
  then show ?thesis
    by simp
qed

lemma regex_replace_no_match:
  "\<not> regex_test m s \<Longrightarrow> regex_replace m s new = s"
  by (induction s) (auto split: if_splits)

lemma regex_replace_extension:
  "regex_test re_heic_or_heif s \<Longrightarrow>
     regex_replace re_heic_or_heif s ''.jpg'' = take (length s - 5) s @ ''.jpg''"
proof (induction s)
  case Nil
  then show ?case
    using regex_test_length[of "[]"] by simp
next
  case (Cons c cs)
  show ?case
  proof (cases "re_heic_or_heif (c # cs)")
    case True
    then show ?thesis
      using match_length[OF True] by simp
  next
    case False
    then have t: "regex_test re_heic_or_heif cs"
      using Cons.prems by simp
    then have "5 \<le> length cs"
      by (rule regex_test_length)
    then have "take (length (c # cs) - 5) (c # cs) = c # take (length cs - 5) cs"
      by (simp add: take_Cons' )
    then show ?thesis
      using False Cons.IH[OF t] by simp
  qed
qed

lemma photo_heic_name: "regex_replace re_heic_or_heif ''photo.heic'' ''.jpg'' = ''photo.jpg''"
  by (simp add: match_simps)

lemma photo_heic_test: "regex_test re_heic ''photo.heic''"
  by (simp add: match_simps)

section \<open>Detection: the claim\<close>

text \<open>
  Claim C7. \<open>isHeicFile\<close> holds exactly when the declared type is \<open>image/heic\<close> or
  \<open>image/heif\<close>, or the name ends in \<open>.heic\<close> or \<open>.heif\<close> in any mix of upper and lower
  case. A file named \<open>photo.heic\<close> with an empty type is detected and, when the converter
  answers, comes back as a JPEG file named \<open>photo.jpg\<close>. More generally a detected file
  comes back with the converter's first blob, the type \<open>image/jpeg\<close> and its extension,
  if it has one of the two, replaced by \<open>.jpg\<close>.
\<close>

theorem heic_detection:
  "(isHeicFile f \<longleftrightarrow> spec_proprietary f) \<and>
   (file_name f = ''photo.heic'' \<and> blob_type f = [] \<longrightarrow>
      isHeicFile f \<and>
      (\<forall>out. heic2any e f = Inr out \<longrightarrow>
         ensureImageCanLoad e f =
           Inr (new_File (first_variant out) ''photo.jpg'' ''image/jpeg'' (Date_now e f)))) \<and>
   (isHeicFile f \<longrightarrow>
      (\<forall>out. heic2any e f = Inr out \<longrightarrow>
         (\<exists>g. ensureImageCanLoad e f = Inr g \<and> blob_type g = ''image/jpeg'' \<and>
              blob_bytes g = blob_bytes (first_variant out) \<and>
              file_name g =
                (if regex_test re_heic_or_heif (file_name f)
                 then take (length (file_name f) - 5) (file_name f) @ ''.jpg''
                 else file_name f))))"
proof (intro conjI impI allI)
  show "isHeicFile f \<longleftrightarrow> spec_proprietary f"
    by (rule isHeicFile_spec)
next
  assume a: "file_name f = ''photo.heic'' \<and> blob_type f = []"
  then have "regex_test re_heic (file_name f)"
    using photo_heic_test by (simp only:)
  then show h: "isHeicFile f"
    by (simp only: isHeicFile_def simp_thms)
  fix out
  assume "heic2any e f = Inr out"
  then show "ensureImageCanLoad e f =
      Inr (new_File (first_variant out) ''photo.jpg'' ''image/jpeg'' (Date_now e f))"
    using a h photo_heic_name by (simp add: ensureImageCanLoad_def convertHeicToJpeg_def)
next
  fix out
  assume h: "isHeicFile f" and c: "heic2any e f = Inr out"
  have n: "regex_replace re_heic_or_heif (file_name f) ''.jpg'' =
      (if regex_test re_heic_or_heif (file_name f)
       then take (length (file_name f) - 5) (file_name f) @ ''.jpg'' else file_name f)"
    using regex_replace_extension[of "file_name f"]
      regex_replace_no_match[of re_heic_or_heif "file_name f" "''.jpg''"]
    by auto
  show "\<exists>g. ensureImageCanLoad e f = Inr g \<and> blob_type g = ''image/jpeg'' \<and>
      blob_bytes g = blob_bytes (first_variant out) \<and>
      file_name g =
        (if regex_test re_heic_or_heif (file_name f)
         then take (length (file_name f) - 5) (file_name f) @ ''.jpg'' else file_name f)"
    using h c n by (simp add: ensureImageCanLoad_def convertHeicToJpeg_def new_File_def)
qed

theorem heic_detection_witness:
  "isHeicFile photo_heic \<and> spec_proprietary photo_heic \<and>
   file_name photo_heic = ''photo.heic'' \<and> blob_type photo_heic = [] \<and>
   heic2any demo_env photo_heic = Inr (OneBlob converted_pixels) \<and>
   ensureImageCanLoad demo_env photo_heic =
     Inr \<lparr>blob_bytes = ''converted-jpeg'', blob_type = ''image/jpeg'',
          file_name = ''photo.jpg'', lastModified = 1700000000000\<rparr>"
proof -
  have n: "file_name photo_heic = ''photo.heic'' \<and> blob_type photo_heic = []"
    by (simp add: photo_heic_def)
  have c: "heic2any demo_env photo_heic = Inr (OneBlob converted_pixels)"
    by (simp add: demo_env_def photo_heic_def)
  have d: "Date_now demo_env photo_heic = 1700000000000"
    by (simp add: demo_env_def)
  have t: "isHeicFile photo_heic = spec_proprietary photo_heic"
    and h: "isHeicFile photo_heic"
    and r: "ensureImageCanLoad demo_env photo_heic =
      Inr (new_File (first_variant (OneBlob converted_pixels)) ''photo.jpg'' ''image/jpeg''
             (Date_now demo_env photo_heic))"
    using heic_detection[of photo_heic demo_env] n c by blast+
  have s: "spec_proprietary photo_heic"
    using t h by simp
  show ?thesis
    using h s n c r d by (simp add: new_File_def first_variant_def converted_pixels_def)
qed

section \<open>Lemmas: the scaled height\<close>

lemma scaled_gap:
  fixes w h :: nat
  assumes w: "0 < w" and h: "h < 2 ^ 32"
  shows "3 * (of_nat h * 1920 / of_nat w) / 9007199254740992 < (1 / (2 * of_nat w) :: rat)"
proof -
  have W: "0 < rat_of_nat w"
    using w by simp
  have "rat_of_nat h < 2 ^ 32"
    using h by (metis of_nat_less_iff of_nat_numeral of_nat_power)
  then have "3 * (rat_of_nat h * 1920) / 9007199254740992 < 1 / 2"
    by simp
  then have "(3 * (rat_of_nat h * 1920) / 9007199254740992) / rat_of_nat w < (1 / 2) / rat_of_nat w"
    using W by (rule divide_strict_right_mono)
  then show ?thesis
    by simp
qed

lemma Math_round_scaled_nearest:
  fixes w h :: nat
  assumes w: "0 < w" and h: "h < 2 ^ 32"
  shows "\<bar>2 * Math_round (js_mul (of_nat h) (js_div 1920 (of_nat w))) * int w - 3840 * int h\<bar>
           \<le> int w"
proof -
  define q where "q = (of_nat h * 1920 / of_nat w :: rat)"
  define p where "p = js_mul (of_nat h) (js_div 1920 (of_nat w))"
  define n where "n = Math_round p"
  define r where "r = (1 / (2 * of_nat w) :: rat)"
  have W: "0 < 2 * rat_of_nat w"
    using w by simp
  have qw: "2 * rat_of_nat w * q = rat_of_int (3840 * int h)"
    using w by (simp add: q_def)
  have rw: "2 * rat_of_nat w * r = 1"
    using w by (simp add: r_def)
  have q0: "0 \<le> q"
    by (simp add: q_def)
  have fl: "of_int n \<le> p + 1 / 2" "p + 1 / 2 < of_int n + 1"
    unfolding n_def Math_round_def by linarith+
  have err: "\<bar>p - q\<bar> \<le> 3 * q / 9007199254740992"
    unfolding p_def q_def by (rule scaled_error[OF w])
  have gap: "3 * q / 9007199254740992 < r"
    unfolding q_def r_def by (rule scaled_gap[OF w h])
  have lo: "of_int n - 1 / 2 - r < q" and hi: "q < of_int n + 1 / 2 + r"
    using fl err gap by linarith+
  have "2 * rat_of_nat w * (of_int n - 1 / 2 - r) < 2 * rat_of_nat w * q"
    using lo W by (rule mult_strict_left_mono)
  then have "rat_of_int (2 * n * int w - int w - 1) < rat_of_int (3840 * int h)"
    using qw rw by (simp add: algebra_simps)
  then have lo_int: "2 * n * int w - int w - 1 < 3840 * int h"
    by (simp only: of_int_less_iff)
  have "2 * rat_of_nat w * q < 2 * rat_of_nat w * (of_int n + 1 / 2 + r)"
    using hi W by (rule mult_strict_left_mono)
  then have "rat_of_int (3840 * int h) < rat_of_int (2 * n * int w + int w + 1)"
    using qw rw by (simp add: algebra_simps)
  then have hi_int: "3840 * int h < 2 * n * int w + int w + 1"
    by (simp only: of_int_less_iff)
  show ?thesis
    using lo_int hi_int unfolding n_def p_def by linarith
qed

lemma scaled_size_eq:
  "scaled_size w h =
     (MAX_WIDTH, nat (Math_round (js_mul (of_nat h) (js_div 1920 (of_nat w)))))"
  by (simp add: scaled_size_def MAX_WIDTH_def)

lemma scaled_height_int:
  assumes "0 < w"
  shows "int (snd (scaled_size w h)) = Math_round (js_mul (of_nat h) (js_div 1920 (of_nat w)))"
proof -
  have "0 \<le> js_mul (of_nat h) (js_div 1920 (of_nat w)) + 1 / 2"
    using scaled_nonneg[OF assms, of h] by linarith
  then have "0 \<le> Math_round (js_mul (of_nat h) (js_div 1920 (of_nat w)))"
    by (simp only: Math_round_def zero_le_floor of_int_0)
  then show ?thesis
    by (simp add: scaled_size_eq)
qed

lemma pow2_mono: "a \<le> b \<Longrightarrow> pow2 a \<le> pow2 b"
  by (simp add: pow2_power_int power_int_increasing)

lemma binade_unique:
  assumes "0 < x" and "pow2 k \<le> x" and "x < pow2 (k + 1)"
  shows "binade x = k"
proof (rule antisym)
  show "binade x \<le> k"
  proof (rule ccontr)
    assume "\<not> binade x \<le> k"
    then have "pow2 (k + 1) \<le> pow2 (binade x)"
      by (intro pow2_mono) simp
    then show False
      using binade_lower[OF assms(1)] assms(3) by linarith
  qed
  show "k \<le> binade x"
  proof (rule ccontr)
    assume "\<not> k \<le> binade x"
    then have "pow2 (binade x + 1) \<le> pow2 k"
      by (intro pow2_mono) simp
    then show False
      using binade_upper[OF assms(1)] assms(2) by linarith
  qed
qed

text \<open>Rounding a positive number whose exponent is known.\<close>

lemma binary64_at:
  assumes "0 < x" and "pow2 k \<le> x" and "x < pow2 (k + 1)"
  shows "binary64 x = of_int (rne (x / pow2 (k - 52))) * pow2 (k - 52)"
proof -
  have "binade \<bar>x\<bar> = k"
    using binade_unique[OF assms] assms(1) by simp
  then show ?thesis
    using assms(1) by (simp add: binary64_def Let_def)
qed

lemma floor_numeral_div:
  "\<lfloor>numeral a / numeral b :: rat\<rfloor> = numeral a div numeral b"
  using floor_divide_of_int_eq[of "numeral a" "numeral b", where ?'a = rat] by simp

lemmas number_simps = js_div_def js_mul_def pow2_def rne_def Let_def Math_round_def
  floor_numeral_div

lemma div_1920_3000: "js_div 1920 3000 = 5764607523034235 / 9007199254740992"
  using binary64_at[of "1920 / 3000" "- 1"] by (simp add: number_simps)

lemma mul_2000: "js_mul 2000 (5764607523034235 / 9007199254740992) = 1280"
  using binary64_at[of "2000 * (5764607523034235 / 9007199254740992)" 10]
  by (simp add: number_simps)

lemma div_1920_2000: "js_div 1920 2000 = 1080863910568919 / 1125899906842624"
  using binary64_at[of "1920 / 2000" "- 1"] by (simp add: number_simps)

lemma mul_4000: "js_mul 4000 (1080863910568919 / 1125899906842624) = 3840"
  using binary64_at[of "4000 * (1080863910568919 / 1125899906842624)" 11]
  by (simp add: number_simps)

lemma div_1920_2816: "js_div 1920 2816 = 6141272219141585 / 9007199254740992"
  using binary64_at[of "1920 / 2816" "- 1"] by (simp add: number_simps)

lemma mul_11:
  "js_mul 11 (6141272219141585 / 9007199254740992) = 8444249301319679 / 1125899906842624"
  using binary64_at[of "11 * (6141272219141585 / 9007199254740992)" 2]
  by (simp add: number_simps)

lemma scaled_3000_2000: "scaled_size 3000 2000 = (1920, 1280)"
  by (simp add: scaled_size_eq div_1920_3000 mul_2000 Math_round_def MAX_WIDTH_def floor_numeral_div)

lemma scaled_2000_4000: "scaled_size 2000 4000 = (1920, 3840)"
  by (simp add: scaled_size_eq div_1920_2000 mul_4000 Math_round_def MAX_WIDTH_def floor_numeral_div)

lemma scaled_2816_11: "scaled_size 2816 11 = (1920, 7)"
  by (simp add: scaled_size_eq div_1920_2816 mul_11 Math_round_def MAX_WIDTH_def floor_numeral_div)

lemma spec_height_2816_11: "spec_height 2816 11 = 8"
  by (simp add: spec_height_def)

lemma spec_height_3000_2000: "spec_height 3000 2000 = 1280"
  by (simp add: spec_height_def floor_numeral_div)

lemma demo_compress_tall: "compressImage demo_env tall_jpg = Inr tall_jpg"
  by (simp add: compressImage_def demo_ensure_tall demo_read_tall MAX_WIDTH_def)

section \<open>Dimensions: the claims\<close>

text \<open>
  Claim C1 says that no processed file has a width or a height above \<open>MAX_WIDTH\<close>. The
  script bounds the width only. A raster of 1000 by 3000 is passed through with its
  height of 3000, and a raster of 2000 by 4000 is redrawn at 1920 by 3840.
\<close>

theorem max_dimension_counterexample:
  "compressImage demo_env tall_jpg = Inr tall_jpg
   \<and> image_decodes demo_env tall_jpg = Some (1000, 3000)
   \<and> MAX_WIDTH < 3000
   \<and> scaled_size 2000 4000 = (1920, 3840)
   \<and> MAX_WIDTH < 3840"
  by (simp add: demo_compress_tall scaled_2000_4000 MAX_WIDTH_def)
     (simp add: demo_env_def tall_jpg_def)

text \<open>
  Claim C1, amended. Whenever \<open>compressImage\<close> returns a file, either the decoded raster
  is at most \<open>MAX_WIDTH\<close> wide and the file returned is the normalized file as it is, or
  the file returned is the encoding of a canvas exactly \<open>MAX_WIDTH\<close> wide. The height of
  that canvas is at most \<open>MAX_WIDTH\<close> when the raster is not taller than wide, and it keeps
  the aspect ratio up to rounding: for heights below \<open>2 ^ 32\<close> it is within one half of
  \<open>height * 1920 / width\<close>.
\<close>

theorem processed_width_bounded:
  assumes "compressImage e f = Inr out"
  shows "\<exists>lf img.
           ensureImageCanLoad e f = Inr lf \<and> readFileAsImage e lf = Inr img \<and>
           (if width img \<le> MAX_WIDTH then out = lf
            else (\<exists>b h'.
                    h' = snd (scaled_size (width img) (height img)) \<and>
                    canvas_toBlob e
                      \<lparr>canvas_width = MAX_WIDTH, canvas_height = h', canvas_drawn = img\<rparr> = Some b \<and>
                    out = new_File b (file_name lf) ''image/jpeg'' (Date_now e lf) \<and>
                    (height img \<le> width img \<longrightarrow> h' \<le> MAX_WIDTH) \<and>
                    (height img < 2 ^ 32 \<longrightarrow>
                       \<bar>2 * int h' * int (width img) - 3840 * int (height img)\<bar>
                         \<le> int (width img))))"
  using assms
proof (cases rule: compressImage_cases)
  case (1 lf img)
  then show ?thesis by auto
next
  case (2 lf img b)
  define h' where "h' = snd (scaled_size (width img) (height img))"
  have w: "0 < width img"
    using 2(3) by simp
  have hi: "int h' = Math_round (js_mul (of_nat (height img)) (js_div 1920 (of_nat (width img))))"
    unfolding h'_def by (rule scaled_height_int[OF w])
  have a: "height img \<le> width img \<longrightarrow> h' \<le> MAX_WIDTH"
  proof
    assume "height img \<le> width img"
    then have "int h' \<le> 1920"
      using Math_round_scaled_le[OF w, of "height img"] hi by simp
    then show "h' \<le> MAX_WIDTH"
      by (simp add: MAX_WIDTH_def)
  qed
  have b: "height img < 2 ^ 32 \<longrightarrow>
      \<bar>2 * int h' * int (width img) - 3840 * int (height img)\<bar> \<le> int (width img)"
    using Math_round_scaled_nearest[OF w, of "height img"] hi by simp
  have c: "canvas_toBlob e
      \<lparr>canvas_width = MAX_WIDTH, canvas_height = h', canvas_drawn = img\<rparr> = Some b"
    using 2(4) by (simp add: h'_def scaled_size_eq)
  show ?thesis
    using 2(1,2,3,5) a b c h'_def by auto
qed

theorem processed_width_bounded_witness:
  "compressImage demo_env wide_jpg =
     Inr (new_File jpeg_pixels ''wide.jpg'' ''image/jpeg'' 1700000000000)
   \<and> readFileAsImage demo_env wide_jpg = Inr \<lparr>width = 3000, height = 2000, image_src = wide_jpg\<rparr>
   \<and> snd (scaled_size 3000 2000) = 1280
   \<and> snd (scaled_size 3000 2000) \<le> MAX_WIDTH
   \<and> \<bar>2 * int (snd (scaled_size 3000 2000)) * 3000 - 3840 * 2000\<bar> \<le> (3000::int)"
proof -
  from processed_width_bounded[OF demo_compress_wide]
  obtain lf img where l: "ensureImageCanLoad demo_env wide_jpg = Inr lf"
    and r: "readFileAsImage demo_env lf = Inr img"
    and c: "if width img \<le> MAX_WIDTH
       then new_File jpeg_pixels ''wide.jpg'' ''image/jpeg'' 1700000000000 = lf
       else (\<exists>b h'.
               h' = snd (scaled_size (width img) (height img)) \<and>
               canvas_toBlob demo_env
                 \<lparr>canvas_width = MAX_WIDTH, canvas_height = h', canvas_drawn = img\<rparr> = Some b \<and>
               new_File jpeg_pixels ''wide.jpg'' ''image/jpeg'' 1700000000000 =
                 new_File b (file_name lf) ''image/jpeg'' (Date_now demo_env lf) \<and>
               (height img \<le> width img \<longrightarrow> h' \<le> MAX_WIDTH) \<and>
               (height img < 2 ^ 32 \<longrightarrow>
                  \<bar>2 * int h' * int (width img) - 3840 * int (height img)\<bar> \<le> int (width img)))"
    by blast
  have lf: "lf = wide_jpg"
    using l demo_ensure_wide by simp
  have img: "img = \<lparr>width = 3000, height = 2000, image_src = wide_jpg\<rparr>"
    using r lf demo_read_wide by simp
  have "snd (scaled_size 3000 2000) \<le> MAX_WIDTH
      \<and> \<bar>2 * int (snd (scaled_size 3000 2000)) * 3000 - 3840 * 2000\<bar> \<le> (3000::int)"
    using c by (auto simp add: img MAX_WIDTH_def)
  then show ?thesis
    using demo_compress_wide demo_read_wide scaled_3000_2000 by simp
qed

text \<open>
  Claim C5 says that the height of a resized raster is \<open>height * 1920 / width\<close> rounded,
  a half going up. The script multiplies the height by the rounded quotient
  \<open>1920 / width\<close>, and the two roundings can fall just below a half. For a raster of 2816
  by 11 the exact value is 7.5; the quotient \<open>1920 / 2816\<close> is rounded down to
  \<open>6141272219141585 / 2 ^ 53\<close>, eleven times that is rounded to
  \<open>8444249301319679 / 2 ^ 50\<close>, which prints as 7.499999999999999, and the canvas is 7
  high, not 8.
\<close>

theorem resized_height_counterexample:
  "scaled_size 2816 11 = (1920, 7) \<and> spec_height 2816 11 = 8"
  by (simp add: scaled_2816_11 spec_height_2816_11)

text \<open>
  Claim C5, amended. For a raster wider than \<open>MAX_WIDTH\<close> the file returned is the
  encoding of a canvas exactly 1920 wide whose height is \<open>Math.round\<close> of the binary64
  product of the height and the binary64 quotient \<open>1920 / width\<close>. For heights below
  \<open>2 ^ 32\<close> that height is within one half of \<open>height * 1920 / width\<close>, and it is
  that value rounded, a half going up, unless the value lies exactly halfway between two
  integers. A raster of 3000 by 2000 is redrawn at 1920 by 1280.
\<close>

theorem resized_dimensions:
  assumes "ensureImageCanLoad e f = Inr lf"
    and "readFileAsImage e lf = Inr img"
    and "MAX_WIDTH < width img"
    and "compressImage e f = Inr out"
  shows "(\<exists>b h'.
            h' = snd (scaled_size (width img) (height img)) \<and>
            canvas_toBlob e \<lparr>canvas_width = 1920, canvas_height = h', canvas_drawn = img\<rparr> = Some b \<and>
            out = new_File b (file_name lf) ''image/jpeg'' (Date_now e lf) \<and>
            int h' = Math_round (js_mul (of_nat (height img)) (js_div 1920 (of_nat (width img)))) \<and>
            (height img < 2 ^ 32 \<longrightarrow>
               \<bar>2 * int h' * int (width img) - 3840 * int (height img)\<bar> \<le> int (width img) \<and>
               ((3840 * height img) mod (2 * width img) \<noteq> width img \<longrightarrow>
                  int h' = spec_height (width img) (height img))))
         \<and> scaled_size 3000 2000 = (1920, 1280)"
proof -
  define h' where "h' = snd (scaled_size (width img) (height img))"
  have w: "0 < width img"
    using assms(3) by simp
  have hi: "int h' = Math_round (js_mul (of_nat (height img)) (js_div 1920 (of_nat (width img))))"
    unfolding h'_def by (rule scaled_height_int[OF w])
  have near: "height img < 2 ^ 32 \<longrightarrow>
      \<bar>2 * int h' * int (width img) - 3840 * int (height img)\<bar> \<le> int (width img)"
    using Math_round_scaled_nearest[OF w, of "height img"] hi by simp
  have exact: "height img < 2 ^ 32 \<longrightarrow> (3840 * height img) mod (2 * width img) \<noteq> width img \<longrightarrow>
      int h' = spec_height (width img) (height img)"
    using Math_round_scaled_exact[OF w, of "height img"] hi by simp
  obtain b where b: "canvas_toBlob e
      \<lparr>canvas_width = 1920, canvas_height = h', canvas_drawn = img\<rparr> = Some b"
    and out: "out = new_File b (file_name lf) ''image/jpeg'' (Date_now e lf)"
    using assms
    by (auto simp: compressImage_def Let_def h'_def scaled_size_eq MAX_WIDTH_def
        split: option.splits)
  show ?thesis
    using b out hi near exact scaled_3000_2000 h'_def by blast
qed

theorem resized_dimensions_witness:
  "compressImage demo_env wide_jpg =
     Inr (new_File jpeg_pixels ''wide.jpg'' ''image/jpeg'' 1700000000000)
   \<and> readFileAsImage demo_env wide_jpg = Inr \<lparr>width = 3000, height = 2000, image_src = wide_jpg\<rparr>
   \<and> MAX_WIDTH < 3000
   \<and> (3840 * 2000) mod (2 * 3000) \<noteq> (3000::nat)
   \<and> scaled_size 3000 2000 = (1920, 1280)
   \<and> int (snd (scaled_size 3000 2000)) = spec_height 3000 2000"
proof -
  have w: "MAX_WIDTH < width \<lparr>width = 3000, height = 2000, image_src = wide_jpg\<rparr>"
    by (simp add: MAX_WIDTH_def)
  have "int (snd (scaled_size 3000 2000)) = spec_height 3000 2000"
    using resized_dimensions[OF demo_ensure_wide demo_read_wide w demo_compress_wide]
    by auto
  then show ?thesis
    using demo_compress_wide demo_read_wide scaled_3000_2000 by (simp add: MAX_WIDTH_def)
qed

section \<open>Lemmas: messages and examples of the selection\<close>

lemma file_messages_not_too_many:
  "m \<in> set (file_messages e f) \<Longrightarrow> fst m \<noteq> msg_too_many"
  by (auto simp: file_messages_def msg_too_many_def msg_not_image_def msg_too_large_def
      msg_no_preview_def split: if_splits sum.splits)

lemma too_many_not_in_loop:
  "msg_too_many \<notin> set (map fst (concat (map (file_messages e) fs)))"
  using file_messages_not_too_many by fastforce

lemma count_too_many:
  assumes "MAX_FILES < length files"
  shows "count_list (map fst (change_messages e files p)) msg_too_many = 1"
proof -
  have ne: "files \<noteq> []"
    using assms by auto
  have z: "count_list (map fst (concat (map (file_messages e) (take MAX_FILES files)))) msg_too_many = 0"
    using too_many_not_in_loop by (simp only: count_list_0_iff not_False_eq_True)
  have n: "msg_none_valid \<noteq> msg_too_many" "[] \<noteq> msg_too_many"
    by (simp_all add: msg_none_valid_def msg_too_many_def)
  show ?thesis
    using assms ne z n by (simp add: change_messages_eq)
qed

lemma fileInput_change_truncates:
  assumes "MAX_FILES < length files" and "MAX_FILES < length files'"
    and "take MAX_FILES files' = take MAX_FILES files"
  shows "fileInput_change e files' p = fileInput_change e files p"
proof -
  have "0 < length files" "0 < length files'"
    using assms(1,2) by auto
  then show ?thesis
    using assms by (simp add: fileInput_change_def)
qed

lemma accepted_wide: "accepted wide_jpg"
  by (simp add: accepted_def isValidImage_def blob_size_def MAX_FILE_SIZE_BYTES_def wide_jpg_def)

lemma accepted_tall: "accepted tall_jpg"
  by (simp add: accepted_def isValidImage_def blob_size_def MAX_FILE_SIZE_BYTES_def tall_jpg_def)

lemma photo_is_heic: "isHeicFile photo_heic"
  by (simp add: isHeicFile_def photo_heic_def HEIC_TYPES_def match_simps)

lemma accepted_photo: "accepted photo_heic"
  using photo_is_heic
  by (simp add: accepted_def isValidImage_def blob_size_def MAX_FILE_SIZE_BYTES_def)
     (simp add: photo_heic_def)

lemma notes_not_heic: "\<not> isHeicFile notes_txt"
  by (simp add: isHeicFile_def notes_txt_def HEIC_TYPES_def match_simps)

lemma notes_invalid: "\<not> isValidImage notes_txt"
  using notes_not_heic by (simp add: isValidImage_def) (simp add: notes_txt_def)

lemma not_accepted_notes: "\<not> accepted notes_txt"
  using notes_invalid by (simp add: accepted_def)

lemma messages_wide: "file_messages demo_env wide_jpg = []"
  using accepted_wide by (simp add: file_messages_def accepted_def demo_ensure_wide)

lemma messages_tall: "file_messages demo_env tall_jpg = []"
  using accepted_tall by (simp add: file_messages_def accepted_def demo_ensure_tall)

lemma demo_ensure_photo:
  "ensureImageCanLoad demo_env photo_heic =
     Inr (new_File converted_pixels ''photo.jpg'' ''image/jpeg'' 1700000000000)"
proof -
  have "heic2any demo_env photo_heic = Inr (OneBlob converted_pixels)"
    by (simp add: demo_env_def photo_heic_def)
  moreover have "Date_now demo_env photo_heic = 1700000000000"
    by (simp add: demo_env_def)
  moreover have "file_name photo_heic = ''photo.heic''"
    by (simp add: photo_heic_def)
  ultimately show ?thesis
    using photo_is_heic photo_heic_name
    by (simp add: ensureImageCanLoad_def convertHeicToJpeg_def first_variant_def)
qed

lemma messages_photo: "file_messages demo_env photo_heic = []"
  using accepted_photo by (simp add: file_messages_def accepted_def demo_ensure_photo)

lemma messages_notes: "file_messages demo_env notes_txt = [(msg_not_image, ''error'')]"
  using notes_invalid by (simp add: file_messages_def)

lemma file_messages_in_change:
  assumes "f \<in> set (take MAX_FILES files)" and "m \<in> set (file_messages e f)"
  shows "m \<in> set (change_messages e files p)"
proof -
  have "files \<noteq> []"
    using assms(1) by auto
  moreover have "m \<in> set (concat (map (file_messages e) (take MAX_FILES files)))"
    using assms by auto
  ultimately show ?thesis
    by (simp add: change_messages_eq)
qed

lemma prepared_from_selected:
  assumes "prepareCompressedFiles e fs q = (Inr outs, q')"
  shows "list_all2 (\<lambda>g out. compressImage e g = Inr out) fs outs"
proof -
  have "outs = map (\<lambda>f. projr (compressImage e f)) fs"
    and "\<forall>f\<in>set fs. compressImage e f = Inr (projr (compressImage e f))"
    using prepare_each_Inr[of e fs "[]" q outs q'] assms
    by (simp_all add: prepareCompressedFiles_def)
  then show ?thesis
    by (simp add: list_all2_map2 list.rel_refl_strong)
qed

lemma demo_read_converted:
  "readFileAsImage demo_env (new_File converted_pixels ''photo.jpg'' ''image/jpeg'' 1700000000000) =
     Inr \<lparr>width = 800, height = 600,
          image_src = new_File converted_pixels ''photo.jpg'' ''image/jpeg'' 1700000000000\<rparr>"
  by (simp add: readFileAsImage_def demo_env_def new_File_def converted_pixels_def)

lemma demo_compress_photo:
  "compressImage demo_env photo_heic =
     Inr (new_File converted_pixels ''photo.jpg'' ''image/jpeg'' 1700000000000)"
  by (simp add: compressImage_def demo_ensure_photo demo_read_converted MAX_WIDTH_def)

lemma demo_prepare_two:
  "prepareCompressedFiles demo_env [tall_jpg, photo_heic] blank_page =
     (Inr [tall_jpg, new_File converted_pixels ''photo.jpg'' ''image/jpeg'' 1700000000000],
      blank_page)"
  by (simp add: prepareCompressedFiles_def demo_compress_tall demo_compress_photo)

lemma huge_txt_size: "MAX_FILE_SIZE_BYTES < blob_size huge_txt"
  by (simp add: MAX_FILE_SIZE_BYTES_def blob_size_def huge_txt_def)

lemma huge_png_size: "MAX_FILE_SIZE_BYTES < blob_size huge_png"
  by (simp add: MAX_FILE_SIZE_BYTES_def blob_size_def huge_png_def)

lemma huge_txt_invalid: "\<not> isValidImage huge_txt"
proof -
  have "\<not> isHeicFile huge_txt"
    by (simp add: isHeicFile_def huge_txt_def HEIC_TYPES_def match_simps)
  then show ?thesis
    by (simp add: isValidImage_def) (simp add: huge_txt_def)
qed

lemma huge_png_valid: "isValidImage huge_png"
  by (simp add: isValidImage_def huge_png_def)

lemma messages_huge_txt: "file_messages demo_env huge_txt = [(msg_not_image, ''error'')]"
  using huge_txt_invalid by (simp add: file_messages_def)

lemma broken_is_heic: "isHeicFile broken_heic"
  by (simp add: isHeicFile_def broken_heic_def HEIC_TYPES_def)

lemma broken_fails: "stage_fails demo_env broken_heic"
  using broken_is_heic
  by (simp add: stage_fails_def conversion_fails_def) (simp add: demo_env_def broken_heic_def)

lemma demo_compress_broken: "compressImage demo_env broken_heic = Inl (Error ''ERR_LIBHEIF'')"
proof -
  have "heic2any demo_env broken_heic = Inl (Error ''ERR_LIBHEIF'')"
    by (simp add: demo_env_def broken_heic_def)
  then show ?thesis
    using broken_is_heic
    by (simp add: compressImage_def ensureImageCanLoad_def convertHeicToJpeg_def)
qed

lemma demo_prepare_failing:
  "prepareCompressedFiles demo_env failing_batch blank_page =
     (Inl (Error ''ERR_LIBHEIF''), setMessage msg_not_processed ''error'' blank_page)"
  by (simp add: prepareCompressedFiles_def failing_batch_def demo_compress_tall
      demo_compress_broken)

lemma xhr_upload_requests:
  "requests (snd (xhr_upload e formData p)) = requests p @ [formData]"
  by (simp add: xhr_upload_def xhr_done_def setMessage_def setProgress_def Let_def
      split: xhr_result.splits json_response.splits)

lemma submit_sends:
  assumes "selectedFiles p \<noteq> []"
    and "\<And>q. prepareCompressedFiles e (selectedFiles p) q = (Inr outs, q)"
  shows "requests (uploadForm_submit e p) = requests p @ [outs]"
proof -
  define p4 where "p4 = setProgress 10 ''Compressing images...''
      (resetProgress ((setMessage [] []
         (p\<lparr>uploadButton_disabled := True, fileInput_disabled := True\<rparr>))\<lparr>progress_hidden := False\<rparr>))"
  have s4: "selectedFiles p4 = selectedFiles p" and r4: "requests p4 = requests p"
    by (simp_all add: p4_def setProgress_def resetProgress_def setMessage_def)
  define u where "u = xhr_upload e outs (setProgress 30 msg_uploading p4)"
  have ru: "requests (snd u) = requests p @ [outs]"
    by (simp add: u_def xhr_upload_requests setProgress_def r4)
  have "uploadForm_submit e p =
      (let p5 = (case u of
                   (True, r) \<Rightarrow> updateUploadButtonState (resetPreview (r\<lparr>selectedFiles := []\<rparr>))
                 | (False, r) \<Rightarrow> r)
       in p5\<lparr>uploadButton_disabled := (length (selectedFiles p5) = 0), fileInput_disabled := False\<rparr>)"
    using assms(1) assms(2)[of p4]
    by (simp add: uploadForm_submit_def Let_def p4_def[symmetric] s4 u_def)
  then show ?thesis
    using ru
    by (cases u) (auto simp: Let_def updateUploadButtonState_def resetPreview_def split: bool.splits)
qed

lemma demo_submit_tall:
  "requests (uploadForm_submit demo_env (blank_page\<lparr>selectedFiles := [tall_jpg]\<rparr>)) = [[tall_jpg]]"
proof -
  have "prepareCompressedFiles demo_env [tall_jpg] q = (Inr [tall_jpg], q)" for q
    by (simp add: prepareCompressedFiles_def demo_compress_tall)
  then have "requests (uploadForm_submit demo_env (blank_page\<lparr>selectedFiles := [tall_jpg]\<rparr>)) =
      requests (blank_page\<lparr>selectedFiles := [tall_jpg]\<rparr>) @ [[tall_jpg]]"
    by (intro submit_sends) simp_all
  then show ?thesis
    by (simp add: blank_page_def)
qed

section \<open>Selection and preparation: the claims\<close>

text \<open>
  Claim C3. When more than \<open>MAX_FILES\<close> files are chosen, the change handler looks at
  the first ten only, in their order: the files it keeps are the accepted ones among
  them, the messages are those of the first ten, and two selections with the same first
  ten files leave the page in the same state. The message about the maximum is set
  exactly once.
\<close>

theorem too_many_files:
  assumes "MAX_FILES < length files"
  shows "selectedFiles (fileInput_change e files p) = filter accepted (take MAX_FILES files)
     \<and> length (take MAX_FILES files) = 10
     \<and> change_messages e files p =
         ([], []) # (msg_too_many, ''error'') #
         concat (map (file_messages e) (take MAX_FILES files)) @
         (if filter accepted (take MAX_FILES files) = [] then [(msg_none_valid, ''error'')] else [])
     \<and> count_list (map fst (change_messages e files p)) msg_too_many = 1
     \<and> (\<forall>files'. MAX_FILES < length files' \<and> take MAX_FILES files' = take MAX_FILES files \<longrightarrow>
            fileInput_change e files' p = fileInput_change e files p)"
proof (intro conjI allI impI)
  show "selectedFiles (fileInput_change e files p) = filter accepted (take MAX_FILES files)"
    by (rule fileInput_change_selectedFiles)
  show "length (take MAX_FILES files) = 10"
    using assms by (simp add: MAX_FILES_def)
  have "files \<noteq> []"
    using assms by auto
  then show "change_messages e files p =
         ([], []) # (msg_too_many, ''error'') #
         concat (map (file_messages e) (take MAX_FILES files)) @
         (if filter accepted (take MAX_FILES files) = [] then [(msg_none_valid, ''error'')] else [])"
    using assms by (simp add: change_messages_eq)
  show "count_list (map fst (change_messages e files p)) msg_too_many = 1"
    using assms by (rule count_too_many)
next
  fix files'
  assume "MAX_FILES < length files' \<and> take MAX_FILES files' = take MAX_FILES files"
  then show "fileInput_change e files' p = fileInput_change e files p"
    using fileInput_change_truncates[OF assms, of files' e p] by simp
qed

theorem too_many_files_witness:
  "MAX_FILES < length twelve_files
   \<and> selectedFiles (fileInput_change demo_env twelve_files blank_page) =
       [wide_jpg, tall_jpg, wide_jpg, wide_jpg, wide_jpg, wide_jpg, wide_jpg, wide_jpg, photo_heic]
   \<and> change_messages demo_env twelve_files blank_page =
       [([], []), (msg_too_many, ''error''), (msg_not_image, ''error'')]
   \<and> count_list (map fst (change_messages demo_env twelve_files blank_page)) msg_too_many = 1
   \<and> fileInput_change demo_env (take 10 twelve_files @ [notes_txt]) blank_page =
       fileInput_change demo_env twelve_files blank_page"
proof -
  have l: "MAX_FILES < length twelve_files"
    by (simp add: MAX_FILES_def twelve_files_def)
  have t: "take MAX_FILES twelve_files =
      [wide_jpg, tall_jpg, notes_txt, wide_jpg, wide_jpg, wide_jpg, wide_jpg, wide_jpg,
       wide_jpg, photo_heic]"
    by (simp add: MAX_FILES_def twelve_files_def)
  have l': "MAX_FILES < length (take 10 twelve_files @ [notes_txt]) \<and>
      take MAX_FILES (take 10 twelve_files @ [notes_txt]) = take MAX_FILES twelve_files"
    by (simp add: MAX_FILES_def twelve_files_def)
  note T = too_many_files[OF l, of demo_env blank_page]
  have f: "filter accepted (take MAX_FILES twelve_files) =
      [wide_jpg, tall_jpg, wide_jpg, wide_jpg, wide_jpg, wide_jpg, wide_jpg, wide_jpg, photo_heic]"
    by (simp add: t accepted_wide accepted_tall accepted_photo not_accepted_notes)
  have m: "concat (map (file_messages demo_env) (take MAX_FILES twelve_files)) =
      [(msg_not_image, ''error'')]"
    by (simp add: t messages_wide messages_tall messages_photo messages_notes)
  have c1: "selectedFiles (fileInput_change demo_env twelve_files blank_page) =
      [wide_jpg, tall_jpg, wide_jpg, wide_jpg, wide_jpg, wide_jpg, wide_jpg, wide_jpg, photo_heic]"
    using T[THEN conjunct1] by (simp only: f)
  have c2: "change_messages demo_env twelve_files blank_page =
      [([], []), (msg_too_many, ''error''), (msg_not_image, ''error'')]"
    using T[THEN conjunct2, THEN conjunct2, THEN conjunct1] by (simp add: f m)
  have c3: "count_list (map fst (change_messages demo_env twelve_files blank_page)) msg_too_many = 1"
    using T[THEN conjunct2, THEN conjunct2, THEN conjunct2, THEN conjunct1] .
  have c4: "fileInput_change demo_env (take 10 twelve_files @ [notes_txt]) blank_page =
      fileInput_change demo_env twelve_files blank_page"
    using T[THEN conjunct2, THEN conjunct2, THEN conjunct2, THEN conjunct2, THEN spec,
        of "take 10 twelve_files @ [notes_txt]"] l'
    by (rule mp)
  show ?thesis
    using l c1 c2 c3 c4 by (intro conjI)
qed

text \<open>
  Claim C9. A file whose type does not start with \<open>image/\<close> and which is not detected
  as HEIC is never among the selected files, and when it is one of the files the handler
  looks at, the message that only images are allowed is set. Every selected file passed
  both tests of the loop and is one of the first ten, and every file that
  \<open>prepareCompressedFiles\<close> returns is the result of \<open>compressImage\<close> on a selected file,
  in the same order.
\<close>

theorem non_images_rejected:
  assumes "\<not> prefix ''image/'' (blob_type f)" and "\<not> isHeicFile f"
  shows "f \<notin> set (selectedFiles (fileInput_change e files p))
     \<and> (f \<in> set (take MAX_FILES files) \<longrightarrow>
          (msg_not_image, ''error'') \<in> set (change_messages e files p))
     \<and> (\<forall>g\<in>set (selectedFiles (fileInput_change e files p)).
          accepted g \<and> g \<in> set (take MAX_FILES files))
     \<and> (\<forall>outs q q'.
          prepareCompressedFiles e (selectedFiles (fileInput_change e files p)) q = (Inr outs, q') \<longrightarrow>
          list_all2 (\<lambda>g out. accepted g \<and> compressImage e g = Inr out)
            (selectedFiles (fileInput_change e files p)) outs)"
proof (intro conjI impI allI ballI)
  have inv: "\<not> isValidImage f"
    using assms by (simp add: isValidImage_def)
  then show "f \<notin> set (selectedFiles (fileInput_change e files p))"
    by (simp add: fileInput_change_selectedFiles accepted_def)
  {
    assume "f \<in> set (take MAX_FILES files)"
    moreover have "(msg_not_image, ''error'') \<in> set (file_messages e f)"
      using inv by (simp add: file_messages_def)
    ultimately show "(msg_not_image, ''error'') \<in> set (change_messages e files p)"
      by (rule file_messages_in_change)
  }
next
  fix g
  assume "g \<in> set (selectedFiles (fileInput_change e files p))"
  then show "accepted g" and "g \<in> set (take MAX_FILES files)"
    by (simp_all add: fileInput_change_selectedFiles)
next
  fix outs q q'
  assume "prepareCompressedFiles e (selectedFiles (fileInput_change e files p)) q = (Inr outs, q')"
  then have "list_all2 (\<lambda>g out. compressImage e g = Inr out)
      (selectedFiles (fileInput_change e files p)) outs"
    by (rule prepared_from_selected)
  then show "list_all2 (\<lambda>g out. accepted g \<and> compressImage e g = Inr out)
      (selectedFiles (fileInput_change e files p)) outs"
    by (rule list.rel_mono_strong) (simp add: fileInput_change_selectedFiles)
qed

theorem non_images_rejected_witness:
  "\<not> prefix ''image/'' (blob_type notes_txt) \<and> \<not> isHeicFile notes_txt
   \<and> notes_txt \<in> set (take MAX_FILES three_files)
   \<and> notes_txt \<notin> set (selectedFiles (fileInput_change demo_env three_files blank_page))
   \<and> (msg_not_image, ''error'') \<in> set (change_messages demo_env three_files blank_page)
   \<and> selectedFiles (fileInput_change demo_env three_files blank_page) = [tall_jpg, photo_heic]
   \<and> accepted tall_jpg \<and> accepted photo_heic
   \<and> prepareCompressedFiles demo_env [tall_jpg, photo_heic] blank_page =
       (Inr [tall_jpg, new_File converted_pixels ''photo.jpg'' ''image/jpeg'' 1700000000000],
        blank_page)
   \<and> list_all2 (\<lambda>g out. accepted g \<and> compressImage demo_env g = Inr out)
       [tall_jpg, photo_heic]
       [tall_jpg, new_File converted_pixels ''photo.jpg'' ''image/jpeg'' 1700000000000]"
proof -
  have a: "\<not> prefix ''image/'' (blob_type notes_txt)"
    by (simp add: notes_txt_def)
  have t: "take MAX_FILES three_files = [notes_txt, tall_jpg, photo_heic]"
    by (simp add: MAX_FILES_def three_files_def)
  have i: "notes_txt \<in> set (take MAX_FILES three_files)"
    by (simp add: t)
  have s: "selectedFiles (fileInput_change demo_env three_files blank_page) = [tall_jpg, photo_heic]"
    by (simp add: fileInput_change_selectedFiles t accepted_tall accepted_photo not_accepted_notes)
  note T = non_images_rejected[OF a notes_not_heic, of demo_env three_files blank_page]
  have c1: "notes_txt \<notin> set (selectedFiles (fileInput_change demo_env three_files blank_page))"
    using T[THEN conjunct1] .
  have c2: "(msg_not_image, ''error'') \<in> set (change_messages demo_env three_files blank_page)"
    using T[THEN conjunct2, THEN conjunct1] i by (rule mp)
  have c3: "accepted tall_jpg \<and> accepted photo_heic"
    using T[THEN conjunct2, THEN conjunct2, THEN conjunct1] by (simp add: s)
  have dp: "prepareCompressedFiles demo_env
      (selectedFiles (fileInput_change demo_env three_files blank_page)) blank_page =
       (Inr [tall_jpg, new_File converted_pixels ''photo.jpg'' ''image/jpeg'' 1700000000000],
        blank_page)"
    using demo_prepare_two by (simp only: s)
  have c4: "list_all2 (\<lambda>g out. accepted g \<and> compressImage demo_env g = Inr out)
       [tall_jpg, photo_heic]
       [tall_jpg, new_File converted_pixels ''photo.jpg'' ''image/jpeg'' 1700000000000]"
    using T[THEN conjunct2, THEN conjunct2, THEN conjunct2, rule_format, OF dp]
    by (simp only: s)
  show ?thesis
    using a notes_not_heic i c1 c2 s c3 demo_prepare_two c4 by (intro conjI) simp_all
qed

text \<open>
  Claim C2 says that a file above 20 MiB is rejected as too large whatever its type. The
  loop tests the type first: a text file of 20 MiB and one byte is rejected with the
  message that only images are allowed, and the message about the size is never set.
\<close>

theorem size_before_type_counterexample:
  "MAX_FILE_SIZE_BYTES < blob_size huge_txt
   \<and> change_messages demo_env [huge_txt] blank_page =
       [([], []), (msg_not_image, ''error''), (msg_none_valid, ''error'')]
   \<and> (msg_too_large (file_name huge_txt), ''error'')
       \<notin> set (change_messages demo_env [huge_txt] blank_page)"
proof -
  have t: "take MAX_FILES [huge_txt] = [huge_txt]"
    by (simp add: MAX_FILES_def)
  have n: "\<not> accepted huge_txt"
    using huge_txt_invalid by (simp add: accepted_def)
  have m: "change_messages demo_env [huge_txt] blank_page =
      [([], []), (msg_not_image, ''error''), (msg_none_valid, ''error'')]"
    by (simp add: change_messages_eq t n messages_huge_txt MAX_FILES_def)
  have d: "msg_too_large (file_name huge_txt) \<noteq> [] \<and>
      msg_too_large (file_name huge_txt) \<noteq> msg_not_image \<and>
      msg_too_large (file_name huge_txt) \<noteq> msg_none_valid"
    by (simp add: msg_too_large_def msg_not_image_def msg_none_valid_def)
  show ?thesis
    using huge_txt_size d by (simp add: m)
qed

text \<open>
  Claim C2, amended. A file above \<open>MAX_FILE_SIZE_BYTES\<close> is never among the selected
  files, whatever its type. When it is one of the files the handler looks at, the message
  set for it is the one about the size if the file passes the type test, and the one
  about images otherwise.
\<close>

theorem oversized_rejected:
  assumes "MAX_FILE_SIZE_BYTES < blob_size f"
  shows "f \<notin> set (selectedFiles (fileInput_change e files p))
     \<and> (f \<in> set (take MAX_FILES files) \<longrightarrow>
          (if isValidImage f then (msg_too_large (file_name f), ''error'')
           else (msg_not_image, ''error'')) \<in> set (change_messages e files p))"
proof (intro conjI impI)
  show "f \<notin> set (selectedFiles (fileInput_change e files p))"
    using assms by (simp add: fileInput_change_selectedFiles accepted_def)
  assume "f \<in> set (take MAX_FILES files)"
  moreover have "(if isValidImage f then (msg_too_large (file_name f), ''error'')
      else (msg_not_image, ''error'')) \<in> set (file_messages e f)"
    using assms by (simp add: file_messages_def)
  ultimately show "(if isValidImage f then (msg_too_large (file_name f), ''error'')
      else (msg_not_image, ''error'')) \<in> set (change_messages e files p)"
    by (rule file_messages_in_change)
qed

theorem oversized_rejected_witness:
  "MAX_FILE_SIZE_BYTES < blob_size huge_png
   \<and> isValidImage huge_png
   \<and> huge_png \<in> set (take MAX_FILES [tall_jpg, huge_png])
   \<and> huge_png \<notin> set (selectedFiles (fileInput_change demo_env [tall_jpg, huge_png] blank_page))
   \<and> (msg_too_large ''scan.png'', ''error'')
       \<in> set (change_messages demo_env [tall_jpg, huge_png] blank_page)"
proof -
  have i: "huge_png \<in> set (take MAX_FILES [tall_jpg, huge_png])"
    by (simp add: MAX_FILES_def)
  have n: "file_name huge_png = ''scan.png''"
    by (simp add: huge_png_def)
  note T = oversized_rejected[OF huge_png_size, of demo_env "[tall_jpg, huge_png]" blank_page]
  have c1: "huge_png \<notin> set (selectedFiles (fileInput_change demo_env [tall_jpg, huge_png] blank_page))"
    using T[THEN conjunct1] .
  have "(if isValidImage huge_png then (msg_too_large (file_name huge_png), ''error'')
      else (msg_not_image, ''error'')) \<in> set (change_messages demo_env [tall_jpg, huge_png] blank_page)"
    using T[THEN conjunct2] i by (rule mp)
  then have c2: "(msg_too_large ''scan.png'', ''error'')
      \<in> set (change_messages demo_env [tall_jpg, huge_png] blank_page)"
    by (simp only: huge_png_valid n if_True)
  show ?thesis
    using huge_png_size huge_png_valid i c1 c2 by (intro conjI)
qed

text \<open>
  Claim C8. If some stage fails for one file of a batch (the conversion, the decoding or
  the encoding of the canvas), \<open>prepareCompressedFiles\<close> returns an error and no list of
  files, and sets the message that an image could not be processed. The submit handler
  then sends no request; the selection stays as it was.
\<close>

theorem prepare_aborts_batch:
  assumes "f \<in> set files" and "stage_fails e f"
  shows "(\<exists>err. prepareCompressedFiles e files p =
            (Inl err, setMessage msg_not_processed ''error'' p))
     \<and> (selectedFiles p = files \<longrightarrow>
          requests (uploadForm_submit e p) = requests p \<and>
          messages (uploadForm_submit e p) =
            messages p @ [([], []), (msg_not_processed, ''error'')] \<and>
          selectedFiles (uploadForm_submit e p) = files)"
proof (intro conjI impI)
  have fails: "\<exists>f\<in>set files. isl (compressImage e f)"
    using assms by (auto simp: compressImage_fails_iff)
  show "\<exists>err. prepareCompressedFiles e files p =
      (Inl err, setMessage msg_not_processed ''error'' p)"
    unfolding prepareCompressedFiles_def using fails by (rule prepare_each_fails)
  assume sel: "selectedFiles p = files"
  define p4 where "p4 = setProgress 10 ''Compressing images...''
      (resetProgress ((setMessage [] []
         (p\<lparr>uploadButton_disabled := True, fileInput_disabled := True\<rparr>))\<lparr>progress_hidden := False\<rparr>))"
  have s4: "selectedFiles p4 = files" and r4: "requests p4 = requests p"
    and m4: "messages p4 = messages p @ [([], [])]"
    by (simp_all add: p4_def setProgress_def resetProgress_def setMessage_def sel)
  obtain err where pr: "prepareCompressedFiles e (selectedFiles p4) p4 =
      (Inl err, setMessage msg_not_processed ''error'' p4)"
    unfolding prepareCompressedFiles_def s4 using prepare_each_fails[OF fails] by blast
  have ne: "length (selectedFiles p) \<noteq> 0"
    using assms(1) sel by auto
  have sub: "uploadForm_submit e p =
      (setMessage msg_not_processed ''error'' p4)
        \<lparr>uploadButton_disabled := (length (selectedFiles (setMessage msg_not_processed ''error'' p4)) = 0),
         fileInput_disabled := False\<rparr>"
    using ne pr by (simp add: uploadForm_submit_def Let_def p4_def[symmetric])
  show "requests (uploadForm_submit e p) = requests p"
    by (simp add: sub setMessage_def r4)
  show "messages (uploadForm_submit e p) = messages p @ [([], []), (msg_not_processed, ''error'')]"
    by (simp add: sub setMessage_def m4)
  show "selectedFiles (uploadForm_submit e p) = files"
    by (simp add: sub setMessage_def s4)
qed

theorem prepare_aborts_batch_witness:
  "broken_heic \<in> set failing_batch \<and> stage_fails demo_env broken_heic
   \<and> prepareCompressedFiles demo_env failing_batch blank_page =
       (Inl (Error ''ERR_LIBHEIF''), setMessage msg_not_processed ''error'' blank_page)
   \<and> requests (uploadForm_submit demo_env (blank_page\<lparr>selectedFiles := failing_batch\<rparr>)) = []
   \<and> messages (uploadForm_submit demo_env (blank_page\<lparr>selectedFiles := failing_batch\<rparr>)) =
       [([], []), (msg_not_processed, ''error'')]
   \<and> selectedFiles (uploadForm_submit demo_env (blank_page\<lparr>selectedFiles := failing_batch\<rparr>)) =
       failing_batch
   \<and> requests (uploadForm_submit demo_env (blank_page\<lparr>selectedFiles := [tall_jpg]\<rparr>)) =
       [[tall_jpg]]"
proof -
  have i: "broken_heic \<in> set failing_batch"
    by (simp add: failing_batch_def)
  have s: "selectedFiles (blank_page\<lparr>selectedFiles := failing_batch\<rparr>) = failing_batch"
    by simp
  note T = prepare_aborts_batch[OF i broken_fails,
      of "blank_page\<lparr>selectedFiles := failing_batch\<rparr>", THEN conjunct2, THEN mp, OF s]
  have r: "requests (blank_page\<lparr>selectedFiles := failing_batch\<rparr>) = []"
    and m: "messages (blank_page\<lparr>selectedFiles := failing_batch\<rparr>) = []"
    by (simp_all add: blank_page_def)
  have c1: "requests (uploadForm_submit demo_env (blank_page\<lparr>selectedFiles := failing_batch\<rparr>)) = []"
    using T[THEN conjunct1] by (simp only: r)
  have c2: "messages (uploadForm_submit demo_env (blank_page\<lparr>selectedFiles := failing_batch\<rparr>)) =
       [([], []), (msg_not_processed, ''error'')]"
    using T[THEN conjunct2, THEN conjunct1] by (simp only: m append_Nil)
  have c3: "selectedFiles (uploadForm_submit demo_env (blank_page\<lparr>selectedFiles := failing_batch\<rparr>)) =
       failing_batch"
    using T[THEN conjunct2, THEN conjunct2] .
  show ?thesis
    using i broken_fails demo_prepare_failing c1 c2 c3 demo_submit_tall by (intro conjI)
qed

end
